theory Spec2Isabelle
  imports Complex_Main
begin

section \<open>Numbers: floating-point values with their special values\<close>

text \<open>
  The arrays of \<^verbatim>\<open>net.py\<close> hold IEEE floating-point numbers. The model keeps the
  three special values the code relies on (\<^verbatim>\<open>-np.inf\<close> as the masked score,
  \<^verbatim>\<open>xp.isnan\<close> on the softmax output) and takes every finite value as a real
  number: rounding, overflow to infinity and the sign of zero are not modelled.
  The special values follow IEEE 754: NaN is absorbing, \<open>inf - inf\<close> and
  \<open>0 * inf\<close> are NaN.
\<close>

datatype fl = Fin real | PInf | NInf | NaN

fun isnan :: "fl \<Rightarrow> bool" where
  "isnan NaN = True"
| "isnan _ = False"

fun isfinite :: "fl \<Rightarrow> bool" where
  "isfinite (Fin _) = True"
| "isfinite _ = False"

fun fl_add :: "fl \<Rightarrow> fl \<Rightarrow> fl" where
  "fl_add (Fin a) (Fin b) = Fin (a + b)"
| "fl_add NaN _ = NaN"
| "fl_add _ NaN = NaN"
| "fl_add PInf NInf = NaN"
| "fl_add NInf PInf = NaN"
| "fl_add PInf _ = PInf"
| "fl_add _ PInf = PInf"
| "fl_add NInf _ = NInf"
| "fl_add _ NInf = NInf"

fun fl_neg :: "fl \<Rightarrow> fl" where
  "fl_neg (Fin a) = Fin (- a)"
| "fl_neg PInf = NInf"
| "fl_neg NInf = PInf"
| "fl_neg NaN = NaN"

fun fl_inf_of_sign :: "real \<Rightarrow> fl" where
  "fl_inf_of_sign s = (if s = 0 then NaN else if 0 < s then PInf else NInf)"

fun fl_mul :: "fl \<Rightarrow> fl \<Rightarrow> fl" where
  "fl_mul (Fin a) (Fin b) = Fin (a * b)"
| "fl_mul NaN _ = NaN"
| "fl_mul _ NaN = NaN"
| "fl_mul (Fin a) PInf = fl_inf_of_sign a"
| "fl_mul (Fin a) NInf = fl_inf_of_sign (- a)"
| "fl_mul PInf (Fin b) = fl_inf_of_sign b"
| "fl_mul NInf (Fin b) = fl_inf_of_sign (- b)"
| "fl_mul PInf PInf = PInf"
| "fl_mul NInf NInf = PInf"
| "fl_mul PInf NInf = NInf"
| "fl_mul NInf PInf = NInf"

fun fl_div :: "fl \<Rightarrow> fl \<Rightarrow> fl" where
  "fl_div (Fin a) (Fin b) = (if b = 0 then fl_inf_of_sign a else Fin (a / b))"
| "fl_div NaN _ = NaN"
| "fl_div _ NaN = NaN"
| "fl_div (Fin a) PInf = Fin 0"
| "fl_div (Fin a) NInf = Fin 0"
| "fl_div PInf (Fin b) = (if 0 \<le> b then PInf else NInf)"
| "fl_div NInf (Fin b) = (if 0 \<le> b then NInf else PInf)"
| "fl_div PInf _ = NaN"
| "fl_div NInf _ = NaN"

instantiation fl :: comm_monoid_add
begin

definition zero_fl :: fl where "zero_fl = Fin 0"
definition plus_fl :: "fl \<Rightarrow> fl \<Rightarrow> fl" where "plus_fl = fl_add"

instance
proof
  fix a b c :: fl
  show "a + b + c = a + (b + c)"
    unfolding plus_fl_def by (cases a; cases b; cases c; simp)
  show "a + b = b + a"
    unfolding plus_fl_def by (cases a; cases b; simp)
  show "0 + a = a"
    unfolding plus_fl_def zero_fl_def by (cases a; simp)
qed

end

instantiation fl :: "{times, minus, uminus, inverse, one}"
begin

definition one_fl :: fl where "one_fl = Fin 1"
definition times_fl :: "fl \<Rightarrow> fl \<Rightarrow> fl" where "times_fl = fl_mul"
definition uminus_fl :: "fl \<Rightarrow> fl" where "uminus_fl = fl_neg"
definition minus_fl :: "fl \<Rightarrow> fl \<Rightarrow> fl" where "minus_fl a b = fl_add a (fl_neg b)"
definition divide_fl :: "fl \<Rightarrow> fl \<Rightarrow> fl" where "divide_fl = fl_div"
definition inverse_fl :: "fl \<Rightarrow> fl" where "inverse_fl a = fl_div (Fin 1) a"

instance ..

end

text \<open>\<^verbatim>\<open>exp\<close>, \<^verbatim>\<open>log\<close>, \<^verbatim>\<open>sqrt\<close> and the logistic function on the special values.\<close>

fun fl_exp :: "fl \<Rightarrow> fl" where
  "fl_exp (Fin a) = Fin (exp a)"
| "fl_exp PInf = PInf"
| "fl_exp NInf = Fin 0"
| "fl_exp NaN = NaN"

fun fl_log :: "fl \<Rightarrow> fl" where
  "fl_log (Fin a) = (if a < 0 then NaN else if a = 0 then NInf else Fin (ln a))"
| "fl_log PInf = PInf"
| "fl_log NInf = NaN"
| "fl_log NaN = NaN"

fun fl_sigmoid :: "fl \<Rightarrow> fl" where
  "fl_sigmoid (Fin a) = Fin (1 / (1 + exp (- a)))"
| "fl_sigmoid PInf = Fin 1"
| "fl_sigmoid NInf = Fin 0"
| "fl_sigmoid NaN = NaN"

text \<open>\<open>a \<le> b\<close> as the hardware compares: false as soon as one side is NaN.\<close>

fun fl_le :: "fl \<Rightarrow> fl \<Rightarrow> bool" where
  "fl_le (Fin a) (Fin b) = (a \<le> b)"
| "fl_le NaN _ = False"
| "fl_le _ NaN = False"
| "fl_le NInf _ = True"
| "fl_le _ PInf = True"
| "fl_le _ _ = False"

text \<open>\<^verbatim>\<open>max\<close> of numpy: NaN as soon as one side is NaN.\<close>

fun fl_max :: "fl \<Rightarrow> fl \<Rightarrow> fl" where
  "fl_max NaN _ = NaN"
| "fl_max _ NaN = NaN"
| "fl_max a b = (if fl_le a b then b else a)"

section \<open>Errors and arrays\<close>

text \<open>
  Every exception the forward path can raise is a value. An array of numpy or of
  chainer is a nested list, outermost axis first; the trailing axis of length one
  that \<^verbatim>\<open>net.py\<close> appends to a hidden state (\<^verbatim>\<open>[batch, units, length, 1]\<close>, there
  for the two-dimensional convolution) is left out, so that \<^verbatim>\<open>F.squeeze(x, axis=3)\<close>
  and \<^verbatim>\<open>x[:, :, :, None]\<close> are the identity of the model.
\<close>

datatype error =
    ShapeMismatch        \<comment> \<open>the type check of a chainer function, or a failed broadcast\<close>
  | IndexError           \<comment> \<open>an id outside of an embedding table or of the vocabulary\<close>
  | ReadOnlyAssignment   \<comment> \<open>numpy: "assignment destination is read-only"\<close>
  | EmptyReduction       \<comment> \<open>numpy: maximum or argmax over an axis of length zero\<close>
  | EmptyStack           \<comment> \<open>numpy: "need at least one array to stack"\<close>
  | EmptyBatch           \<comment> \<open>\<^verbatim>\<open>concat_examples\<close>: "batch is empty"\<close>
  | AssertionError
  | ZeroDivisionError

type_synonym 'a result = "error + 'a"

definition rbind :: "'a result \<Rightarrow> ('a \<Rightarrow> 'b result) \<Rightarrow> 'b result" where
  "rbind m f = (case m of Inl e \<Rightarrow> Inl e | Inr x \<Rightarrow> f x)"

fun rmap :: "('a \<Rightarrow> 'b result) \<Rightarrow> 'a list \<Rightarrow> 'b list result" where
  "rmap f [] = Inr []"
| "rmap f (x # xs) = rbind (f x) (\<lambda>y. rbind (rmap f xs) (\<lambda>ys. Inr (y # ys)))"

definition rmap2 :: "('a \<Rightarrow> 'b \<Rightarrow> 'c result) \<Rightarrow> 'a list \<Rightarrow> 'b list \<Rightarrow> 'c list result" where
  "rmap2 f xs ys =
     (if length xs = length ys then rmap (\<lambda>(x, y). f x y) (zip xs ys) else Inl ShapeMismatch)"

type_synonym vec = "fl list"
type_synonym mat = "fl list list"
type_synonym tensor3 = "fl list list list"
type_synonym tensor4 = "fl list list list list"

definition ncols :: "'a list list \<Rightarrow> nat" where
  "ncols m = (case m of [] \<Rightarrow> 0 | r # _ \<Rightarrow> length r)"

definition is_mat :: "nat \<Rightarrow> nat \<Rightarrow> 'a list list \<Rightarrow> bool" where
  "is_mat r c m \<longleftrightarrow> length m = r \<and> list_all (\<lambda>row. length row = c) m"

definition is_tensor3 :: "nat \<Rightarrow> nat \<Rightarrow> nat \<Rightarrow> 'a list list list \<Rightarrow> bool" where
  "is_tensor3 b u l x \<longleftrightarrow> length x = b \<and> list_all (is_mat u l) x"

definition is_tensor4 :: "nat \<Rightarrow> nat \<Rightarrow> nat \<Rightarrow> nat \<Rightarrow> 'a list list list list \<Rightarrow> bool" where
  "is_tensor4 b u l s x \<longleftrightarrow> length x = b \<and> list_all (is_tensor3 u l s) x"

definition imap :: "(nat \<Rightarrow> 'a \<Rightarrow> 'b) \<Rightarrow> 'a list \<Rightarrow> 'b list" where
  "imap f xs = map (\<lambda>i. f i (xs ! i)) [0..<length xs]"

definition transpose_mat :: "'a list list \<Rightarrow> 'a list list" where
  \<comment> \<open>\<^verbatim>\<open>[r][c]\<close> to \<^verbatim>\<open>[c][r]\<close>, of a rectangular array\<close>
  "transpose_mat m = map (\<lambda>j. map (\<lambda>i. m ! i ! j) [0..<length m]) [0..<ncols m]"

definition reshape2 :: "nat \<Rightarrow> nat \<Rightarrow> 'a list \<Rightarrow> 'a list list" where
  \<comment> \<open>\<^verbatim>\<open>reshape((r, c))\<close> of a flat array, in C order\<close>
  "reshape2 r c flat = map (\<lambda>i. map (\<lambda>j. flat ! (i * c + j)) [0..<c]) [0..<r]"

definition reshape3 :: "nat \<Rightarrow> nat \<Rightarrow> nat \<Rightarrow> 'a list \<Rightarrow> 'a list list list" where
  \<comment> \<open>\<^verbatim>\<open>reshape((b, u, l))\<close> of a flat array, in C order\<close>
  "reshape3 b u l flat =
     map (\<lambda>i. map (\<lambda>j. map (\<lambda>k. flat ! (i * u * l + j * l + k)) [0..<l]) [0..<u]) [0..<b]"

subsection \<open>Elementwise functions of chainer\<close>

text \<open>
  \<^verbatim>\<open>x + y\<close> of two variables broadcasts as numpy does: along every axis the two
  lengths are equal, or one of them is 1 and that entry is repeated. On the nested
  lists this is one \<open>broadcast2\<close> for each axis; for rectangular arrays with no axis
  of length zero it is the rule of numpy, which compares the shapes as a whole.
  Early releases of chainer refused a sum of two shapes that differ; the model
  follows the current one, in which the arithmetic operators broadcast.
\<close>

definition broadcast2 :: "('a \<Rightarrow> 'b \<Rightarrow> 'c result) \<Rightarrow> 'a list \<Rightarrow> 'b list \<Rightarrow> 'c list result" where
  "broadcast2 f xs ys =
     (if length xs = length ys then rmap (\<lambda>(x, y). f x y) (zip xs ys)
      else if length xs = 1 then rmap (\<lambda>y. f (hd xs) y) ys
      else if length ys = 1 then rmap (\<lambda>x. f x (hd ys)) xs
      else Inl ShapeMismatch)"

definition F_add :: "tensor3 \<Rightarrow> tensor3 \<Rightarrow> tensor3 result" where
  \<comment> \<open>\<^verbatim>\<open>x + y\<close> of two variables\<close>
  "F_add x y = broadcast2 (broadcast2 (broadcast2 (\<lambda>a b. Inr (a + b)))) x y"

definition mul_const :: "tensor3 \<Rightarrow> real \<Rightarrow> tensor3" where
  \<comment> \<open>\<^verbatim>\<open>x *= scale\<close> with a Python float\<close>
  "mul_const x s = map (map (map (\<lambda>v. v * Fin s))) x"

definition F_sigmoid :: "tensor3 \<Rightarrow> tensor3" where
  "F_sigmoid x = map (map (map fl_sigmoid)) x"

text \<open>
  Dropout draws a random mask. The draws are an argument of the model: a
  \<open>keep_mask\<close> says for every index of the array whether the element is kept.
  \<^verbatim>\<open>F.dropout\<close> is the identity unless \<^verbatim>\<open>chainer.config.train\<close> is set; when it
  drops, it multiplies by \<^verbatim>\<open>scale * flag\<close> with \<^verbatim>\<open>scale = 1. / (1 - ratio)\<close>.
\<close>

type_synonym keep_mask = "nat \<Rightarrow> nat \<Rightarrow> nat \<Rightarrow> bool"

definition dropout_mask :: "real \<Rightarrow> bool \<Rightarrow> fl" where
  "dropout_mask ratio flag = Fin ((1 / (1 - ratio)) * (if flag then 1 else 0))"

definition F_dropout :: "bool \<Rightarrow> real \<Rightarrow> keep_mask \<Rightarrow> tensor3 \<Rightarrow> tensor3 result" where
  "F_dropout train ratio keep x =
     (if \<not> train then Inr x
      else if ratio = 1 then Inl ZeroDivisionError
      else Inr (imap (\<lambda>b. imap (\<lambda>u. imap (\<lambda>t v. v * dropout_mask ratio (keep b u t)))) x))"

definition F_dropout2 :: "bool \<Rightarrow> real \<Rightarrow> keep_mask \<Rightarrow> mat \<Rightarrow> mat result" where
  \<comment> \<open>the same on a two-dimensional array; the third index of the mask is 0\<close>
  "F_dropout2 train ratio keep x =
     (if \<not> train then Inr x
      else if ratio = 1 then Inl ZeroDivisionError
      else Inr (imap (\<lambda>i. imap (\<lambda>j v. v * dropout_mask ratio (keep i j 0))) x))"

section \<open>Links and functions of chainer used by \<^verbatim>\<open>net.py\<close>\<close>

text \<open>
  The library is not part of the repository. Each function is modelled by what its
  documentation promises, on one example of the batch where the function treats
  the examples alike.
\<close>

subsection \<open>\<^verbatim>\<open>L.Convolution2D\<close> with kernel \<^verbatim>\<open>(width, 1)\<close>, stride 1 and padding \<^verbatim>\<open>(pad, 0)\<close>\<close>

record Convolution2D =
  conv_W :: "fl list list list"  \<comment> \<open>\<^verbatim>\<open>[out_channels][in_channels][width]\<close>\<close>
  conv_b :: "fl list"            \<comment> \<open>\<^verbatim>\<open>[out_channels]\<close>\<close>
  conv_pad :: nat

definition kernel_width :: "fl list list list \<Rightarrow> nat" where
  "kernel_width W = (case W of [] \<Rightarrow> 0 | w # _ \<Rightarrow> ncols w)"

definition pad_row :: "nat \<Rightarrow> fl list \<Rightarrow> fl list" where
  "pad_row p r = replicate p 0 @ r @ replicate p 0"

definition conv_example :: "Convolution2D \<Rightarrow> mat \<Rightarrow> mat result" where
  \<comment> \<open>one example \<^verbatim>\<open>[in_channels][length]\<close>; the output size must be positive\<close>
  "conv_example cv x =
     (let W = conv_W cv; p = conv_pad cv; k = kernel_width W; l = ncols x in
      if length x \<noteq> ncols W \<or> \<not> is_mat (length x) l x \<or> length (conv_b cv) \<noteq> length W
      then Inl ShapeMismatch
      else if l + 2 * p < k then Inl AssertionError
      else Inr (map (\<lambda>oc. map (\<lambda>t.
                   (\<Sum>c\<leftarrow>[0..<length x]. \<Sum>j\<leftarrow>[0..<k]. W ! oc ! c ! j * pad_row p (x ! c) ! (t + j))
                   + conv_b cv ! oc)
                 [0..<l + 2 * p + 1 - k]) [0..<length W]))"

definition convolution_2d :: "Convolution2D \<Rightarrow> tensor3 \<Rightarrow> tensor3 result" where
  "convolution_2d cv x = rmap (conv_example cv) x"

subsection \<open>\<^verbatim>\<open>L.Linear\<close>\<close>

record Linear =
  lin_W :: mat   \<comment> \<open>\<^verbatim>\<open>[out_size][in_size]\<close>\<close>
  lin_b :: vec   \<comment> \<open>\<^verbatim>\<open>[out_size]\<close>\<close>

definition Linear_init :: "nat \<Rightarrow> nat \<Rightarrow> (nat \<Rightarrow> nat \<Rightarrow> real) \<Rightarrow> Linear" where
  \<comment> \<open>\<^verbatim>\<open>L.Linear(in_size, out_size, initialW=...)\<close>: \<open>draw\<close> is what the initializer draws
      for each entry, the bias starts at zero\<close>
  "Linear_init in_size out_size draw =
     \<lparr>lin_W = map (\<lambda>oc. map (\<lambda>i. Fin (draw oc i)) [0..<in_size]) [0..<out_size],
      lin_b = replicate out_size 0\<rparr>"

definition linear_row :: "Linear \<Rightarrow> vec \<Rightarrow> vec result" where
  "linear_row L v =
     (if length v \<noteq> ncols (lin_W L) then Inl ShapeMismatch
      else Inr (map (\<lambda>oc. (\<Sum>i\<leftarrow>[0..<length v]. v ! i * lin_W L ! oc ! i) + lin_b L ! oc)
                  [0..<length (lin_W L)]))"

definition L_linear :: "Linear \<Rightarrow> mat \<Rightarrow> mat result" where
  \<comment> \<open>\<^verbatim>\<open>x.dot(W.T) + b\<close> on the rows of \<open>x\<close>\<close>
  "L_linear L x = rmap (linear_row L) x"

subsection \<open>\<^verbatim>\<open>L.EmbedID\<close>\<close>

record EmbedID =
  emb_W :: mat                  \<comment> \<open>\<^verbatim>\<open>[in_size][out_size]\<close>\<close>
  emb_ignore :: "int option"    \<comment> \<open>\<^verbatim>\<open>ignore_label\<close>\<close>

definition EmbedID_init :: "nat \<Rightarrow> nat \<Rightarrow> int option \<Rightarrow> (nat \<Rightarrow> nat \<Rightarrow> real) \<Rightarrow> EmbedID" where
  \<comment> \<open>\<^verbatim>\<open>L.EmbedID(in_size, out_size, ignore_label=..., initialW=...)\<close>\<close>
  "EmbedID_init in_size out_size ignore draw =
     \<lparr>emb_W = map (\<lambda>i. map (\<lambda>j. Fin (draw i j)) [0..<out_size]) [0..<in_size],
      emb_ignore = ignore\<rparr>"

definition embed_id :: "EmbedID \<Rightarrow> int \<Rightarrow> vec result" where
  \<comment> \<open>\<^verbatim>\<open>W[x]\<close>, a negative index counting from the end, and zero at the ignored label\<close>
  "embed_id E i =
     (let n = int (length (emb_W E)) in
      if - n \<le> i \<and> i < n
      then Inr (if Some i = emb_ignore E then replicate (ncols (emb_W E)) 0
                else emb_W E ! nat (i mod n))
      else Inl IndexError)"

definition L_embed :: "EmbedID \<Rightarrow> int list \<Rightarrow> mat result" where
  "L_embed E ids = rmap (embed_id E) ids"

subsection \<open>\<^verbatim>\<open>F.batch_matmul\<close>, \<^verbatim>\<open>F.where\<close>, \<^verbatim>\<open>F.softmax\<close>, \<^verbatim>\<open>F.split_axis\<close>\<close>

definition matmul_transa :: "mat \<Rightarrow> mat \<Rightarrow> mat result" where
  \<comment> \<open>\<^verbatim>\<open>a\<close> is \<^verbatim>\<open>[units][m]\<close>, \<^verbatim>\<open>b\<close> is \<^verbatim>\<open>[units][n]\<close>; the result is \<^verbatim>\<open>a.T b\<close>\<close>
  "matmul_transa a b =
     (if length a \<noteq> length b then Inl ShapeMismatch
      else Inr (map (\<lambda>i. map (\<lambda>j. \<Sum>u\<leftarrow>[0..<length a]. a ! u ! i * b ! u ! j) [0..<ncols b])
                  [0..<ncols a]))"

definition F_where :: "bool list list \<Rightarrow> mat \<Rightarrow> mat \<Rightarrow> mat result" where
  "F_where c x y =
     (if map length c = map length x \<and> map length x = map length y
      then Inr (map2 (\<lambda>cr (xr, yr). map2 (\<lambda>cv (xv, yv). if cv then xv else yv) cr (zip xr yr))
                  c (zip x y))
      else Inl ShapeMismatch)"

definition softmax_row :: "vec \<Rightarrow> vec result" where
  \<comment> \<open>\<^verbatim>\<open>y = exp(x - max(x)); y / sum(y)\<close>\<close>
  "softmax_row xs =
     (case xs of [] \<Rightarrow> Inl EmptyReduction
      | x # r \<Rightarrow>
         (let m = foldl fl_max x r;
              ys = map (\<lambda>v. fl_exp (v - m)) xs;
              s = sum_list ys
          in Inr (map (\<lambda>y. y / s) ys)))"

definition F_softmax :: "mat \<Rightarrow> mat result" where
  \<comment> \<open>along the last axis\<close>
  "F_softmax x = rmap softmax_row x"

definition F_split_axis :: "mat \<Rightarrow> (mat \<times> mat) result" where
  \<comment> \<open>\<^verbatim>\<open>F.split_axis(h, 2, axis=1)\<close>: the channels of one example in two halves\<close>
  "F_split_axis h =
     (if even (length h) then Inr (take (length h div 2) h, drop (length h div 2) h)
      else Inl ShapeMismatch)"

section \<open>\<^verbatim>\<open>net.py\<close>\<close>

subsection \<open>\<^verbatim>\<open>sentence_block_embed\<close> and \<^verbatim>\<open>seq_linear\<close>\<close>

definition sentence_block_embed :: "EmbedID \<Rightarrow> int list list \<Rightarrow> tensor3 result" where
  \<comment> \<open>\<^verbatim>\<open>e = embed(x.reshape((batch * length, ))); e.reshape((batch, e.shape[1], length))\<close>\<close>
  "sentence_block_embed emb x =
     (let batch = length x; len = ncols x in
      rbind (L_embed emb (concat x)) (\<lambda>e.
      Inr (reshape3 batch (ncols (emb_W emb)) len (concat e))))"

definition dim3 :: "'a list list list \<Rightarrow> nat" where
  "dim3 x = (case x of [] \<Rightarrow> 0 | m # _ \<Rightarrow> ncols m)"

definition seq_linear :: "Linear \<Rightarrow> tensor3 \<Rightarrow> tensor3 result" where
  "seq_linear lin x =
     (let batch = length x; units = ncols x; len = dim3 x in
      rbind (L_linear lin (concat (map transpose_mat x))) (\<lambda>h.
      if h \<noteq> [] \<and> ncols h \<noteq> units then Inl ShapeMismatch
      else Inr (map transpose_mat (reshape2 batch len h))))"

subsection \<open>\<^verbatim>\<open>ConvGLU\<close>\<close>

record ConvGLU =
  glu_conv :: Convolution2D   \<comment> \<open>\<^verbatim>\<open>self.conv\<close>\<close>
  glu_dropout :: real         \<comment> \<open>\<^verbatim>\<open>self.dropout\<close>\<close>

definition ConvGLU_init ::
  "nat \<Rightarrow> nat \<Rightarrow> real \<Rightarrow> bool \<Rightarrow> (nat \<Rightarrow> nat \<Rightarrow> nat \<Rightarrow> real) \<Rightarrow> ConvGLU" where
  \<comment> \<open>\<^verbatim>\<open>__init__(n_units, width, dropout, nopad)\<close>; \<open>draw\<close> is what the initializer
      draws for each entry of the kernel \<^verbatim>\<open>(2 * n_units, n_units, width, 1)\<close>, the bias
      starts at zero\<close>
  "ConvGLU_init units width dropout nopad draw =
     \<lparr>glu_conv =
        \<lparr>conv_W = map (\<lambda>oc. map (\<lambda>c. map (\<lambda>j. Fin (draw oc c j)) [0..<width]) [0..<units])
                    [0..<2 * units],
         conv_b = replicate (2 * units) 0,
         conv_pad = width div 2 * (1 - of_bool nopad)\<rparr>,
      glu_dropout = dropout\<rparr>"

definition ConvGLU_example :: "ConvGLU \<Rightarrow> mat \<Rightarrow> mat result" where
  \<comment> \<open>\<^verbatim>\<open>out, pregate = F.split_axis(self.conv(x), 2, axis=1); out * F.sigmoid(pregate)\<close>\<close>
  "ConvGLU_example g x =
     rbind (conv_example (glu_conv g) x) (\<lambda>h.
     rbind (F_split_axis h) (\<lambda>(out, pregate).
     if map length out = map length pregate
     then Inr (map2 (map2 (*)) out (map (map fl_sigmoid) pregate))
     else Inl ShapeMismatch))"

definition ConvGLU_call :: "bool \<Rightarrow> keep_mask \<Rightarrow> ConvGLU \<Rightarrow> tensor3 \<Rightarrow> tensor3 result" where
  "ConvGLU_call train keep g x =
     rbind (F_dropout train (glu_dropout g) keep x) (\<lambda>x.
     rmap (ConvGLU_example g) x)"

subsection \<open>\<^verbatim>\<open>ConvGLUEncoder\<close>\<close>

text \<open>
  The links \<^verbatim>\<open>l1, l2, ...\<close> that \<^verbatim>\<open>conv_names\<close> lists are the list \<open>enc_links\<close>. The
  randomness of one forward call gives every dropout its own mask.
\<close>

datatype site = EncoderLayer nat | DecoderLayer nat | OutputLayer

type_synonym rng = "site \<Rightarrow> keep_mask"

record ConvGLUEncoder =
  enc_links :: "ConvGLU list"

definition ConvGLUEncoder_init ::
  "nat \<Rightarrow> nat \<Rightarrow> nat \<Rightarrow> real \<Rightarrow> (nat \<Rightarrow> nat \<Rightarrow> nat \<Rightarrow> nat \<Rightarrow> real) \<Rightarrow> ConvGLUEncoder" where
  "ConvGLUEncoder_init layers units width dropout draw =
     \<lparr>enc_links = map (\<lambda>i. ConvGLU_init units width dropout False (draw i)) [0..<layers]\<rparr>"

definition res_scale :: real where
  \<comment> \<open>\<^verbatim>\<open>scale = 0.5 ** 0.5\<close>\<close>
  "res_scale = (1 / 2) powr (1 / 2)"

fun ConvGLUEncoder_loop :: "bool \<Rightarrow> rng \<Rightarrow> nat \<Rightarrow> ConvGLU list \<Rightarrow> tensor3 \<Rightarrow> tensor3 result" where
  "ConvGLUEncoder_loop train rng i [] x = Inr x"
| "ConvGLUEncoder_loop train rng i (l # ls) x =
     rbind (ConvGLU_call train (rng (EncoderLayer i)) l x) (\<lambda>h.
     rbind (F_add x h) (\<lambda>x.
     ConvGLUEncoder_loop train rng (Suc i) ls (mul_const x res_scale)))"

definition ConvGLUEncoder_call :: "bool \<Rightarrow> rng \<Rightarrow> ConvGLUEncoder \<Rightarrow> tensor3 \<Rightarrow> tensor3 result" where
  "ConvGLUEncoder_call train rng E x = ConvGLUEncoder_loop train rng 0 (enc_links E) x"

subsection \<open>\<^verbatim>\<open>ConvGLUDecoder\<close>\<close>

record ConvGLUDecoder =
  dec_convs :: "ConvGLU list"     \<comment> \<open>the links of \<^verbatim>\<open>conv_names\<close>\<close>
  dec_preatts :: "Linear list"    \<comment> \<open>the links of \<^verbatim>\<open>preatt_names\<close>\<close>

definition ConvGLUDecoder_init ::
  "nat \<Rightarrow> nat \<Rightarrow> nat \<Rightarrow> real \<Rightarrow> (nat \<Rightarrow> nat \<Rightarrow> nat \<Rightarrow> nat \<Rightarrow> real) \<Rightarrow> (nat \<Rightarrow> nat \<Rightarrow> nat \<Rightarrow> real)
     \<Rightarrow> ConvGLUDecoder" where
  "ConvGLUDecoder_init layers units width dropout draw draw_preatt =
     \<lparr>dec_convs =
        map (\<lambda>i. ConvGLU_init units (width div 2 + 1) dropout True (draw i)) [0..<layers],
      dec_preatts = map (\<lambda>i. Linear_init units units (draw_preatt i)) [0..<layers]\<rparr>"

definition broadcast_mul :: "mat \<Rightarrow> tensor3 \<Rightarrow> tensor3 result" where
  \<comment> \<open>\<^verbatim>\<open>F.broadcast_to(reshaped_a, value.shape) * value\<close> on one example\<close>
  "broadcast_mul a v =
     (if list_all (\<lambda>vu. map length vu = map length a) v
      then Inr (map (\<lambda>vu. map2 (map2 (*)) a vu) v) else Inl ShapeMismatch)"

definition attend_example :: "mat \<Rightarrow> mat \<Rightarrow> tensor3 \<Rightarrow> bool list list \<Rightarrow> mat result" where
  "attend_example query key v msk =
     rbind (matmul_transa query key) (\<lambda>pre_a.
     let minfs = map (map (\<lambda>_. NInf)) pre_a in
     rbind (F_where msk pre_a minfs) (\<lambda>pre_a.
     rbind (F_softmax pre_a) (\<lambda>a.
     rbind (F_where (map (map isnan) a) (map (map (\<lambda>_. 0)) a) a) (\<lambda>a.
     rbind (broadcast_mul a v) (\<lambda>pre_c.
     Inr (map (map sum_list) pre_c))))))"

definition attend :: "tensor3 \<Rightarrow> tensor3 \<Rightarrow> tensor4 \<Rightarrow> bool list list list \<Rightarrow> tensor3 result" where
  "attend query key v msk =
     (if length query = length key \<and> length key = length v \<and> length v = length msk
      then rmap (\<lambda>b. attend_example (query ! b) (key ! b) (v ! b) (msk ! b)) [0..<length query]
      else Inl ShapeMismatch)"

definition pad_left :: "tensor3 \<Rightarrow> tensor3" where
  \<comment> \<open>\<^verbatim>\<open>F.concat([pad, x], axis=2)\<close> with \<^verbatim>\<open>pad = zeros((x.shape[0], x.shape[1], 2, 1))\<close>\<close>
  "pad_left x = map (map (\<lambda>r. replicate 2 0 @ r)) x"

definition att_scale_of :: "bool list list list \<Rightarrow> fl list list" where
  \<comment> \<open>\<^verbatim>\<open>xp.sum(mask, axis=2, keepdims=True)[:, None, :, :] ** 0.5\<close>\<close>
  "att_scale_of msk = map (map (\<lambda>row. Fin (real (length (filter id row)) powr (1 / 2)))) msk"

definition mul_att_scale :: "tensor3 \<Rightarrow> fl list list \<Rightarrow> tensor3 result" where
  \<comment> \<open>\<^verbatim>\<open>c *= att_scale\<close>: the array is broadcast over the units\<close>
  "mul_att_scale c att_scale =
     (if length c = length att_scale \<and>
         list_all (\<lambda>b. list_all (\<lambda>row. length row = length (att_scale ! b)) (c ! b)) [0..<length c]
      then Inr (imap (\<lambda>b. map (\<lambda>row. map2 (*) row (att_scale ! b))) c)
      else Inl ShapeMismatch)"

definition decoder_query :: "Linear \<Rightarrow> tensor3 \<Rightarrow> tensor3 \<Rightarrow> tensor3 result" where
  \<comment> \<open>\<^verbatim>\<open>preatt = seq_linear(...); query = base_x + preatt; query = F.squeeze(x, axis=3)\<close>\<close>
  "decoder_query preatt_link base_x x =
     rbind (seq_linear preatt_link x) (\<lambda>preatt.
     rbind (F_add base_x preatt) (\<lambda>query.
     let query = x in Inr query))"

definition decoder_layer ::
  "bool \<Rightarrow> keep_mask \<Rightarrow> ConvGLU \<Rightarrow> Linear \<Rightarrow> tensor3 \<Rightarrow> tensor3 \<Rightarrow> tensor4 \<Rightarrow> bool list list list
     \<Rightarrow> fl list list \<Rightarrow> tensor3 \<Rightarrow> tensor3 result" where
  "decoder_layer train keep cv preatt_link base_x z ze msk att_scale x =
     rbind (ConvGLU_call train keep cv (pad_left x)) (\<lambda>h.
     rbind (F_add x h) (\<lambda>x.
     let x = mul_const x res_scale in
     rbind (decoder_query preatt_link base_x x) (\<lambda>query.
     rbind (attend query z ze msk) (\<lambda>c.
     rbind (mul_att_scale c att_scale) (\<lambda>c.
     F_add x c)))))"

fun ConvGLUDecoder_loop ::
  "bool \<Rightarrow> rng \<Rightarrow> nat \<Rightarrow> (ConvGLU \<times> Linear) list \<Rightarrow> tensor3 \<Rightarrow> tensor3 \<Rightarrow> tensor4
     \<Rightarrow> bool list list list \<Rightarrow> fl list list \<Rightarrow> tensor3 \<Rightarrow> tensor3 result" where
  "ConvGLUDecoder_loop train rng i [] base_x z ze msk att_scale x = Inr x"
| "ConvGLUDecoder_loop train rng i ((cv, preatt_link) # ls) base_x z ze msk att_scale x =
     rbind (decoder_layer train (rng (DecoderLayer i)) cv preatt_link base_x z ze msk att_scale x)
       (\<lambda>x. ConvGLUDecoder_loop train rng (Suc i) ls base_x z ze msk att_scale x)"

definition ConvGLUDecoder_call ::
  "bool \<Rightarrow> rng \<Rightarrow> ConvGLUDecoder \<Rightarrow> tensor3 \<Rightarrow> tensor3 \<Rightarrow> tensor4 \<Rightarrow> bool list list list
     \<Rightarrow> tensor3 result" where
  "ConvGLUDecoder_call train rng D x z ze msk =
     (let att_scale = att_scale_of msk; base_x = x in
      ConvGLUDecoder_loop train rng 0 (zip (dec_convs D) (dec_preatts D))
        base_x z ze msk att_scale x)"

subsection \<open>\<^verbatim>\<open>Seq2seq\<close>\<close>

text \<open>
  \<^verbatim>\<open>self.xp\<close> is numpy on the CPU and cupy on the GPU. The two differ where the
  forward path writes into the result of \<^verbatim>\<open>broadcast_to\<close>: numpy returns a
  read-only view and refuses the assignment, cupy returns a view that can be
  written.
\<close>

datatype backend = Numpy | Cupy

record int_array =
  arr_rows :: "int list list"
  arr_writeable :: bool

definition xp_broadcast_to :: "backend \<Rightarrow> int list \<Rightarrow> nat \<Rightarrow> int_array" where
  \<comment> \<open>\<^verbatim>\<open>xp.broadcast_to(row[None, ], (batch, len(row)))\<close>\<close>
  "xp_broadcast_to xpm row batch = \<lparr>arr_rows = replicate batch row, arr_writeable = (xpm = Cupy)\<rparr>"

definition setitem_cols_from :: "int_array \<Rightarrow> nat \<Rightarrow> int \<Rightarrow> int_array result" where
  \<comment> \<open>\<^verbatim>\<open>a[:, k:] = v\<close>\<close>
  "setitem_cols_from a k v =
     (if arr_writeable a
      then Inr (a\<lparr>arr_rows := map (\<lambda>r. take k r @ replicate (length r - k) v) (arr_rows a)\<rparr>)
      else Inl ReadOnlyAssignment)"

record Seq2seq =
  embed_x :: EmbedID
  embed_y :: EmbedID
  embed_position_x :: EmbedID
  embed_position_y :: EmbedID
  encoder :: ConvGLUEncoder
  decoder :: ConvGLUDecoder
  W_out :: Linear              \<comment> \<open>\<^verbatim>\<open>self.W\<close>\<close>
  n_layers :: nat
  n_units :: nat
  n_target_vocab :: nat
  max_length :: nat
  dropout_ratio :: real        \<comment> \<open>\<^verbatim>\<open>self.dropout\<close>\<close>
  xp :: backend

record draws =
  \<comment> \<open>what the initializers draw, for each parameter array and each of its entries\<close>
  draw_embed_x :: "nat \<Rightarrow> nat \<Rightarrow> real"
  draw_embed_y :: "nat \<Rightarrow> nat \<Rightarrow> real"
  draw_embed_position_x :: "nat \<Rightarrow> nat \<Rightarrow> real"
  draw_embed_position_y :: "nat \<Rightarrow> nat \<Rightarrow> real"
  draw_encoder :: "nat \<Rightarrow> nat \<Rightarrow> nat \<Rightarrow> nat \<Rightarrow> real"
  draw_decoder :: "nat \<Rightarrow> nat \<Rightarrow> nat \<Rightarrow> nat \<Rightarrow> real"
  draw_preatt :: "nat \<Rightarrow> nat \<Rightarrow> nat \<Rightarrow> real"
  draw_W :: "nat \<Rightarrow> nat \<Rightarrow> real"

definition Seq2seq_init ::
  "nat \<Rightarrow> nat \<Rightarrow> nat \<Rightarrow> nat \<Rightarrow> nat \<Rightarrow> real \<Rightarrow> backend \<Rightarrow> draws \<Rightarrow> Seq2seq" where
  \<comment> \<open>\<^verbatim>\<open>__init__(n_layers, n_source_vocab, n_target_vocab, n_units, max_length, dropout)\<close>\<close>
  "Seq2seq_init layers source_vocab target_vocab units maxlen dropout xpm d =
     \<lparr>embed_x = EmbedID_init source_vocab units (Some (- 1)) (draw_embed_x d),
      embed_y = EmbedID_init target_vocab units (Some (- 1)) (draw_embed_y d),
      embed_position_x = EmbedID_init maxlen units None (draw_embed_position_x d),
      embed_position_y = EmbedID_init maxlen units None (draw_embed_position_y d),
      encoder = ConvGLUEncoder_init layers units 5 dropout (draw_encoder d),
      decoder = ConvGLUDecoder_init layers units 5 dropout (draw_decoder d) (draw_preatt d),
      W_out = Linear_init units target_vocab (draw_W d),
      n_layers = layers, n_units = units, n_target_vocab = target_vocab, max_length = maxlen,
      dropout_ratio = dropout, xp = xpm\<rparr>"

definition position_block :: "backend \<Rightarrow> nat \<Rightarrow> nat \<Rightarrow> nat \<Rightarrow> int list list result" where
  \<comment> \<open>lines 190 to 193: the positions of a block, those from \<^verbatim>\<open>self.max_length\<close> on set to
      \<^verbatim>\<open>self.max_length - 1\<close>\<close>
  "position_block xpm batch max_len maxlen =
     (let pb = xp_broadcast_to xpm (map int [0..<max_len]) batch in
      rbind (if max_len > maxlen then setitem_cols_from pb maxlen (int maxlen - 1) else Inr pb)
        (\<lambda>pb. Inr (arr_rows pb)))"

definition broadcast_ze :: "nat \<Rightarrow> nat \<Rightarrow> nat \<Rightarrow> nat \<Rightarrow> tensor3 \<Rightarrow> tensor4 result" where
  \<comment> \<open>\<^verbatim>\<open>F.broadcast_to(F.transpose(zsum, (0, 1, 3, 2)), (batch, n_units, y_length, x_length))\<close>\<close>
  "broadcast_ze batch units y_length x_length zsum =
     (if is_tensor3 batch units x_length zsum
      then Inr (map (map (\<lambda>row. replicate y_length row)) zsum) else Inl ShapeMismatch)"

definition z_mask_of :: "int list list \<Rightarrow> int list list \<Rightarrow> bool list list list result" where
  \<comment> \<open>\<^verbatim>\<open>(x_block.data[:, None, :] >= 0) * (y_in_block.data[:, :, None] >= 0)\<close>\<close>
  "z_mask_of x_block y_in_block =
     (if length x_block = length y_in_block
      then Inr (map2 (\<lambda>xr yr. map (\<lambda>yt. map (\<lambda>xs. xs \<ge> 0 \<and> yt \<ge> 0) xr) yr) x_block y_in_block)
      else Inl ShapeMismatch)"

definition Seq2seq_forward :: "bool \<Rightarrow> rng \<Rightarrow> Seq2seq \<Rightarrow> int list list \<Rightarrow> int list list \<Rightarrow> mat result" where
  \<comment> \<open>lines 183 to 218: \<^verbatim>\<open>concat_pred_block\<close>\<close>
  "Seq2seq_forward train rng M x_block y_in_block =
     (let x_length = ncols x_block; batch = length y_in_block; y_length = ncols y_in_block in
      rbind (sentence_block_embed (embed_x M) x_block) (\<lambda>ex_block.
      rbind (sentence_block_embed (embed_y M) y_in_block) (\<lambda>ey_block.
      let max_len = max x_length y_length in
      rbind (position_block (xp M) batch max_len (max_length M)) (\<lambda>pos_block.
      rbind (sentence_block_embed (embed_position_x M) (map (take x_length) pos_block)) (\<lambda>px_block.
      rbind (sentence_block_embed (embed_position_y M) (map (take y_length) pos_block)) (\<lambda>py_block.
      rbind (F_add ex_block px_block) (\<lambda>ex_block.
      rbind (F_add ey_block py_block) (\<lambda>ey_block.
      rbind (ConvGLUEncoder_call train rng (encoder M) ex_block) (\<lambda>z_block.
      rbind (F_add z_block ex_block) (\<lambda>zsum.
      rbind (broadcast_ze batch (n_units M) y_length x_length zsum) (\<lambda>ze_block.
      rbind (z_mask_of x_block y_in_block) (\<lambda>z_mask.
      rbind (ConvGLUDecoder_call train rng (decoder M) ey_block z_block ze_block z_mask) (\<lambda>h_block.
      if \<not> is_tensor3 batch (n_units M) y_length h_block then Inl AssertionError
      else
        let concat_h_block = concat (map transpose_mat h_block) in
        rbind (F_dropout2 train (dropout_ratio M) (rng OutputLayer) concat_h_block) (\<lambda>concat_h_block.
        L_linear (W_out M) concat_h_block))))))))))))))"

text \<open>
  \<^verbatim>\<open>F.softmax_cross_entropy(x, t, reduce='mean')\<close> with its defaults
  \<^verbatim>\<open>ignore_label=-1\<close> and \<^verbatim>\<open>normalize=True\<close>: the rows whose label is -1 are ignored and
  the sum is divided by the number of the others, or by one when there is none.
\<close>

definition log_softmax_row :: "vec \<Rightarrow> vec" where
  "log_softmax_row xs =
     (case xs of [] \<Rightarrow> []
      | x # r \<Rightarrow>
         (let m = foldl fl_max x r;
              lse = fl_log (sum_list (map (\<lambda>v. fl_exp (v - m)) xs))
          in map (\<lambda>v. v - m - lse) xs))"

definition cross_entropy_at :: "vec \<Rightarrow> int \<Rightarrow> fl" where
  "cross_entropy_at row label = - (log_softmax_row row ! nat label)"

definition softmax_cross_entropy :: "mat \<Rightarrow> int list \<Rightarrow> fl result" where
  "softmax_cross_entropy x t =
     (if length x \<noteq> length t then Inl ShapeMismatch
      else if \<not> list_all (\<lambda>(row, label). label = - 1 \<or> (0 \<le> label \<and> label < int (length row))) (zip x t)
      then Inl IndexError
      else
        let count = length (filter (\<lambda>label. label \<noteq> - 1) t);
            losses = map (\<lambda>(row, label). if label = - 1 then 0 else cross_entropy_at row label) (zip x t)
        in Inr (sum_list losses / Fin (real (max count 1))))"

datatype call_result =
    Prediction "fl list list list"      \<comment> \<open>\<^verbatim>\<open>pred_block\<close>\<close>
  | Loss fl "(string \<times> fl) list"        \<comment> \<open>the loss, and what was given to the reporter\<close>

definition Seq2seq_call ::
  "bool \<Rightarrow> rng \<Rightarrow> Seq2seq \<Rightarrow> int list list \<Rightarrow> int list list \<Rightarrow> int list list \<Rightarrow> bool
     \<Rightarrow> call_result result" where
  "Seq2seq_call train rng M x_block y_in_block y_out_block get_prediction =
     (let batch = length y_in_block; y_length = ncols y_in_block in
      rbind (Seq2seq_forward train rng M x_block y_in_block) (\<lambda>concat_pred_block.
      if get_prediction then
        (if list_all (\<lambda>r. length r = n_target_vocab M) concat_pred_block
         then Inr (Prediction (reshape2 batch y_length concat_pred_block))
         else Inl ShapeMismatch)
      else
        (let concat_y_out_block = concat y_out_block in
         if length concat_y_out_block \<noteq> batch * y_length then Inl ShapeMismatch
         else
           rbind (softmax_cross_entropy concat_pred_block concat_y_out_block) (\<lambda>loss.
           let perp = fl_exp loss in
           Inr (Loss loss [(''loss'', loss), (''perp'', perp)])))))"

subsection \<open>\<^verbatim>\<open>Seq2seq.translate\<close>\<close>

datatype source =
    Block "int list list"       \<comment> \<open>an array \<^verbatim>\<open>[batch, length]\<close>\<close>
  | Examples "int list list"    \<comment> \<open>a Python list of sequences\<close>

definition concat_examples :: "int list list \<Rightarrow> int list list result" where
  \<comment> \<open>\<^verbatim>\<open>concat_examples(x_block, device=None, padding=-1)\<close>\<close>
  "concat_examples xs =
     (if xs = [] then Inl EmptyBatch
      else let n = foldr max (map length xs) 0
           in Inr (map (\<lambda>x. x @ replicate (n - length x) (- 1)) xs))"

fun argmax_from :: "vec \<Rightarrow> fl \<Rightarrow> nat \<Rightarrow> nat \<Rightarrow> nat" where
  \<comment> \<open>the rest of the row, the maximum so far, its index, the next index; NaN is maximal\<close>
  "argmax_from [] mp mi i = mi"
| "argmax_from (v # vs) mp mi i =
     (if isnan mp then mi
      else if \<not> fl_le v mp then argmax_from vs v i (Suc i)
      else argmax_from vs mp mi (Suc i))"

definition xp_argmax :: "vec \<Rightarrow> int result" where
  "xp_argmax row = (case row of [] \<Rightarrow> Inl EmptyReduction | x # r \<Rightarrow> Inr (int (argmax_from r x 0 1)))"

definition last_position :: "mat \<Rightarrow> vec result" where
  \<comment> \<open>\<^verbatim>\<open>log_prob_block[:, -1, :]\<close> on one example\<close>
  "last_position m = (if m = [] then Inl IndexError else Inr (last m))"

fun translate_loop ::
  "Seq2seq \<Rightarrow> bool \<Rightarrow> (nat \<Rightarrow> rng) \<Rightarrow> int list list \<Rightarrow> nat \<Rightarrow> nat \<Rightarrow> int list list \<Rightarrow> int list
     \<Rightarrow> int list list \<Rightarrow> int list list result" where
  \<comment> \<open>\<^verbatim>\<open>for i in range(max_length)\<close>: the steps left, the step \<open>i\<close>, and the state
      \<^verbatim>\<open>y_block\<close>, \<^verbatim>\<open>eos_flags\<close>, \<^verbatim>\<open>result\<close>\<close>
  "translate_loop M train rngs x_block 0 i y_block eos_flags result = Inr result"
| "translate_loop M train rngs x_block (Suc n) i y_block eos_flags result =
     rbind (Seq2seq_call train (rngs i) M x_block y_block y_block True) (\<lambda>out.
     case out of
       Loss _ _ \<Rightarrow> Inl AssertionError
     | Prediction log_prob_block \<Rightarrow>
         rbind (rmap last_position log_prob_block) (\<lambda>log_prob_tail.
         rbind (rmap xp_argmax log_prob_tail) (\<lambda>ys.
         let result = result @ [ys];
             y_block = map2 (\<lambda>row y. row @ [y]) y_block ys;
             eos_flags = map2 (\<lambda>e y. e + (if y = 0 then 1 else 0)) eos_flags ys
         in if list_all (\<lambda>e. e \<noteq> 0) eos_flags then Inr result
            else translate_loop M train rngs x_block n (Suc i) y_block eos_flags result)))"

definition remove_eos :: "int list \<Rightarrow> int list" where
  \<comment> \<open>lines 261 to 265, on one row of \<^verbatim>\<open>result\<close>\<close>
  "remove_eos y =
     (let inds = filter (\<lambda>i. y ! i = 0) [0..<length y];
          y = (if length inds > 0 then take (hd inds) y else y);
          y = (if length y = 0 then [1] else y)
      in y)"

definition translate_raw ::
  "Seq2seq \<Rightarrow> bool \<Rightarrow> (nat \<Rightarrow> rng) \<Rightarrow> source \<Rightarrow> nat \<Rightarrow> int list list result" where
  \<comment> \<open>lines 234 to 256: the array \<^verbatim>\<open>result\<close>, one row for each example\<close>
  "translate_raw M train rngs src steps =
     rbind (case src of Examples xs \<Rightarrow> concat_examples xs | Block xs \<Rightarrow> Inr xs) (\<lambda>x_block.
     let batch = length x_block;
         y_block = replicate batch [0];
         eos_flags = replicate batch 0
     in rbind (translate_loop M train rngs x_block steps 0 y_block eos_flags []) (\<lambda>result.
        if result = [] then Inl EmptyStack else Inr (transpose_mat result)))"

definition translate ::
  "Seq2seq \<Rightarrow> bool \<Rightarrow> (nat \<Rightarrow> rng) \<Rightarrow> source \<Rightarrow> nat \<Rightarrow> int list list result" where
  "translate M train rngs src steps =
     rbind (translate_raw M train rngs src steps) (\<lambda>result. Inr (map remove_eos result))"

section \<open>What the constructors fix\<close>

text \<open>
  Training changes the values of the parameters and nothing else. The shapes of
  the arrays and the padding are those the constructor chose.
\<close>

definition ConvGLU_inv :: "nat \<Rightarrow> nat \<Rightarrow> bool \<Rightarrow> ConvGLU \<Rightarrow> bool" where
  \<comment> \<open>a link made by \<^verbatim>\<open>ConvGLU(n_units, width, dropout, nopad)\<close>\<close>
  "ConvGLU_inv units width nopad g \<longleftrightarrow>
     is_tensor3 (2 * units) units width (conv_W (glu_conv g)) \<and>
     length (conv_b (glu_conv g)) = 2 * units \<and>
     conv_pad (glu_conv g) = width div 2 * (1 - of_bool nopad)"

definition Linear_inv :: "nat \<Rightarrow> nat \<Rightarrow> Linear \<Rightarrow> bool" where
  \<comment> \<open>a link made by \<^verbatim>\<open>L.Linear(in_size, out_size)\<close>\<close>
  "Linear_inv in_size out_size l \<longleftrightarrow>
     is_mat out_size in_size (lin_W l) \<and> length (lin_b l) = out_size"

definition ConvGLUEncoder_inv :: "nat \<Rightarrow> nat \<Rightarrow> nat \<Rightarrow> ConvGLUEncoder \<Rightarrow> bool" where
  \<comment> \<open>a chain made by \<^verbatim>\<open>ConvGLUEncoder(n_layers, n_units, width, dropout)\<close>\<close>
  "ConvGLUEncoder_inv layers units width E \<longleftrightarrow>
     length (enc_links E) = layers \<and> list_all (ConvGLU_inv units width False) (enc_links E)"

definition ConvGLUDecoder_inv :: "nat \<Rightarrow> nat \<Rightarrow> nat \<Rightarrow> ConvGLUDecoder \<Rightarrow> bool" where
  \<comment> \<open>a chain made by \<^verbatim>\<open>ConvGLUDecoder(n_layers, n_units, width, dropout)\<close>\<close>
  "ConvGLUDecoder_inv layers units width D \<longleftrightarrow>
     length (dec_convs D) = layers \<and>
     list_all (ConvGLU_inv units (width div 2 + 1) True) (dec_convs D) \<and>
     length (dec_preatts D) = layers \<and>
     list_all (Linear_inv units units) (dec_preatts D)"

section \<open>The words of the specification\<close>

fun residual_stack_spec ::
  "(nat \<Rightarrow> tensor3 \<Rightarrow> tensor3 result) \<Rightarrow> nat \<Rightarrow> nat \<Rightarrow> tensor3 \<Rightarrow> tensor3 result" where
  \<comment> \<open>"apply \<open>n_layers\<close> blocks in sequence; each layer output is added as a residual to
      its input, then the sum is scaled by \<open>1/sqrt(2)\<close> before feeding the next layer":
      the layers \<open>i, i + 1, ...\<close>, \<open>n\<close> of them\<close>
  "residual_stack_spec layer i 0 x = Inr x"
| "residual_stack_spec layer i (Suc n) x =
     rbind (layer i x) (\<lambda>h.
     rbind (F_add x h) (\<lambda>s.
     residual_stack_spec layer (Suc i) n (map (map (map (\<lambda>v. v * Fin (1 / sqrt 2)))) s)))"

definition mean_cross_entropy_spec :: "fl list list list \<Rightarrow> int list list \<Rightarrow> fl" where
  \<comment> \<open>"mean cross-entropy loss (ignoring padded target positions, signaled by the -1
      ignore id)": the mean, over the positions \<open>(b, t)\<close> whose target is not -1, of the
      cross-entropy of the logits \<open>pred[b][t]\<close> with the target \<open>y_out[b][t]\<close>\<close>
  "mean_cross_entropy_spec pred y_out =
     (let kept = filter (\<lambda>(b, t). y_out ! b ! t \<noteq> - 1)
                   (List.product [0..<length y_out] [0..<ncols y_out])
      in (\<Sum>(b, t)\<leftarrow>kept. cross_entropy_at (pred ! b ! t) (y_out ! b ! t))
           / Fin (real (length kept)))"

section \<open>Small models on which the definitions are run\<close>

definition ex_embed :: EmbedID where
  "ex_embed = \<lparr>emb_W = [[Fin 0], [Fin 1], [Fin 2]], emb_ignore = Some (- 1)\<rparr>"
definition ex_embed_position :: EmbedID where
  "ex_embed_position = \<lparr>emb_W = [[Fin 0], [Fin 0]], emb_ignore = None\<rparr>"
definition ex_model :: Seq2seq where
  "ex_model = \<lparr>embed_x = ex_embed, embed_y = ex_embed,
     embed_position_x = ex_embed_position, embed_position_y = ex_embed_position,
     encoder = \<lparr>enc_links = []\<rparr>, decoder = \<lparr>dec_convs = [], dec_preatts = []\<rparr>,
     W_out = \<lparr>lin_W = [[Fin 1], [Fin 0], [Fin 0]], lin_b = [Fin 0, Fin 0, Fin 1]\<rparr>,
     n_layers = 0, n_units = 1, n_target_vocab = 3, max_length = 2, dropout_ratio = 1 / 5,
     xp = Numpy\<rparr>"

definition ex_embed_x2 :: EmbedID where
  "ex_embed_x2 = \<lparr>emb_W = [[Fin 0, Fin 0], [Fin 0, Fin 0], [Fin 0, Fin 0]], emb_ignore = Some (- 1)\<rparr>"

definition ex_embed_y2 :: EmbedID where
  "ex_embed_y2 = \<lparr>emb_W = [[Fin 1, Fin 2], [Fin 3, Fin 4], [Fin 5, Fin 6]], emb_ignore = Some (- 1)\<rparr>"

definition ex_embed_position2 :: EmbedID where
  "ex_embed_position2 = \<lparr>emb_W = [[Fin 0, Fin 0], [Fin 0, Fin 0]], emb_ignore = None\<rparr>"

definition ex_model2 :: Seq2seq where
  \<comment> \<open>one layer, two units, three target words, two positions; the kernels are zero\<close>
  "ex_model2 = \<lparr>embed_x = ex_embed_x2, embed_y = ex_embed_y2,
     embed_position_x = ex_embed_position2, embed_position_y = ex_embed_position2,
     encoder = ConvGLUEncoder_init 1 2 5 (1 / 5) (\<lambda>_ _ _ _. 0),
     decoder = ConvGLUDecoder_init 1 2 5 (1 / 5) (\<lambda>_ _ _ _. 0) (\<lambda>_ _ _. 0),
     W_out = \<lparr>lin_W = [[Fin 1, Fin 0], [Fin 0, Fin 1], [Fin 0, Fin 0]], lin_b = [Fin 0, Fin 0, Fin 0]\<rparr>,
     n_layers = 1, n_units = 2, n_target_vocab = 3, max_length = 2, dropout_ratio = 1 / 5,
     xp = Numpy\<rparr>"

definition ex_preatt :: Linear where
  "ex_preatt = \<lparr>lin_W = [[Fin 1]], lin_b = [Fin 0]\<rparr>"

definition no_drop :: rng where
  "no_drop = (\<lambda>_ _ _ _. True)"

definition ex_glu :: ConvGLU where
  \<comment> \<open>two units, width 5: the first half of the output channels copies the input, the gate is
      \<open>sigmoid 0\<close>\<close>
  "ex_glu = \<lparr>glu_conv =
       \<lparr>conv_W = [[[Fin 0, Fin 0, Fin 1, Fin 0, Fin 0], [Fin 0, Fin 0, Fin 0, Fin 0, Fin 0]],
                  [[Fin 0, Fin 0, Fin 0, Fin 0, Fin 0], [Fin 0, Fin 0, Fin 1, Fin 0, Fin 0]],
                  [[Fin 0, Fin 0, Fin 0, Fin 0, Fin 0], [Fin 0, Fin 0, Fin 0, Fin 0, Fin 0]],
                  [[Fin 0, Fin 0, Fin 0, Fin 0, Fin 0], [Fin 0, Fin 0, Fin 0, Fin 0, Fin 0]]],
        conv_b = [Fin 0, Fin 0, Fin 0, Fin 0],
        conv_pad = 2\<rparr>,
     glu_dropout = 1 / 5\<rparr>"

definition ex_encoder :: ConvGLUEncoder where
  "ex_encoder = \<lparr>enc_links = [ex_glu]\<rparr>"

definition ex_embed_flat :: EmbedID where
  "ex_embed_flat = \<lparr>emb_W = [[Fin 0], [Fin 0]], emb_ignore = Some (- 1)\<rparr>"

definition ex_model_flat :: Seq2seq where
  \<comment> \<open>no layer, one unit, two target words with equal logits\<close>
  "ex_model_flat = \<lparr>embed_x = ex_embed_flat, embed_y = ex_embed_flat,
     embed_position_x = ex_embed_position, embed_position_y = ex_embed_position,
     encoder = \<lparr>enc_links = []\<rparr>, decoder = \<lparr>dec_convs = [], dec_preatts = []\<rparr>,
     W_out = \<lparr>lin_W = [[Fin 0], [Fin 0]], lin_b = [Fin 0, Fin 0]\<rparr>,
     n_layers = 0, n_units = 1, n_target_vocab = 2, max_length = 2, dropout_ratio = 1 / 5,
     xp = Numpy\<rparr>"

section \<open>Basic facts\<close>

lemmas fl_arith = plus_fl_def times_fl_def zero_fl_def one_fl_def minus_fl_def uminus_fl_def divide_fl_def
lemmas array_defs = rmap2_def ncols_def is_mat_def is_tensor3_def is_tensor4_def imap_def transpose_mat_def
  reshape2_def reshape3_def broadcast2_def F_add_def mul_const_def F_sigmoid_def dropout_mask_def F_dropout_def F_dropout2_def
lemmas chainer_defs = kernel_width_def pad_row_def conv_example_def convolution_2d_def linear_row_def L_linear_def
  embed_id_def L_embed_def matmul_transa_def F_where_def softmax_row_def F_softmax_def F_split_axis_def
lemmas net_defs = sentence_block_embed_def dim3_def seq_linear_def ConvGLU_example_def ConvGLU_call_def
  ConvGLUEncoder_call_def broadcast_mul_def attend_example_def attend_def pad_left_def att_scale_of_def
  mul_att_scale_def decoder_query_def decoder_layer_def ConvGLUDecoder_call_def
  xp_broadcast_to_def setitem_cols_from_def position_block_def broadcast_ze_def z_mask_of_def
  Seq2seq_forward_def Seq2seq_call_def
lemmas translate_defs = concat_examples_def xp_argmax_def last_position_def translate_raw_def translate_def
lemmas ex2_defs = ex_model2_def ex_embed_x2_def ex_embed_y2_def ex_embed_position2_def
  ConvGLUEncoder_init_def ConvGLUDecoder_init_def ConvGLU_init_def Linear_init_def ex_preatt_def
  no_drop_def

lemma replicate_numeral_eval: "replicate (numeral k) x = x # replicate (pred_numeral k) x"
  by (simp add: numeral_eq_Suc)

lemmas eval_more = replicate_numeral_eval upt_conv_Cons

lemma res_scale_pos: "0 < res_scale"
  by (simp add: res_scale_def)

lemma rbind_Inr [simp]: "rbind (Inr x) f = f x"
  by (simp add: rbind_def)

lemma rbind_Inl [simp]: "rbind (Inl e) f = Inl e"
  by (simp add: rbind_def)

lemma rbind_eq_Inr: "rbind m f = Inr y \<longleftrightarrow> (\<exists>x. m = Inr x \<and> f x = Inr y)"
  by (cases m) simp_all

lemma rmap_Cons_eq_Inr:
  "rmap f (x # xs) = Inr zs \<longleftrightarrow> (\<exists>y ys. zs = y # ys \<and> f x = Inr y \<and> rmap f xs = Inr ys)"
  by (cases "f x"; cases "rmap f xs") auto

lemma rmap_eq_Inr:
  "rmap f xs = Inr ys \<longleftrightarrow> length ys = length xs \<and> (\<forall>i<length xs. f (xs ! i) = Inr (ys ! i))"
proof (induction xs arbitrary: ys)
  case Nil
  then show ?case by auto
next
  case (Cons x xs)
  show ?case
  proof (cases ys)
    case Nil
    then show ?thesis by (simp add: rmap_Cons_eq_Inr del: rmap.simps)
  next
    case (Cons y ys')
    have "(\<forall>i<Suc (length xs). f ((x # xs) ! i) = Inr ((y # ys') ! i)) \<longleftrightarrow>
          f x = Inr y \<and> (\<forall>i<length xs. f (xs ! i) = Inr (ys' ! i))"
      by (simp add: All_less_Suc2)
    then show ?thesis
      using Cons.IH [of ys'] Cons by (simp add: rmap_Cons_eq_Inr del: rmap.simps) blast
  qed
qed

lemma first_zero_index:
  "filter (\<lambda>i. y ! i = (0::int)) [0..<length y] = [] \<longleftrightarrow> 0 \<notin> set y"
  unfolding filter_empty_conv in_set_conv_nth by auto

lemma filter_upt_hd:
  assumes "filter P [0..<n] \<noteq> []"
  shows "hd (filter P [0..<n]) = (LEAST i. P i)" and "(LEAST i. P i) < n"
proof -
  from assms obtain k where k: "k < n" "P k" by (auto simp: filter_empty_conv)
  let ?m = "LEAST i. P i"
  have m: "P ?m" "?m \<le> k" using k by (auto intro: LeastI Least_le)
  then show "?m < n" using k by simp
  have "[0..<n] = [0..<?m] @ [?m..<n]"
    using \<open>?m < n\<close> upt_add_eq_append [of 0 ?m "n - ?m"] by simp
  then have "[0..<n] = [0..<?m] @ ?m # [Suc ?m..<n]"
    using \<open>?m < n\<close> by (simp add: upt_conv_Cons)
  moreover have "filter P [0..<?m] = []"
    by (auto simp: filter_empty_conv dest: not_less_Least)
  ultimately show "hd (filter P [0..<n]) = ?m" using m by simp
qed

lemma takeWhile_least:
  assumes "(0::int) \<in> set y"
  shows "takeWhile (\<lambda>t. t \<noteq> 0) y = take (LEAST i. y ! i = 0) y"
proof (rule takeWhile_eq_take_P_nth)
  obtain k where k: "k < length y" "y ! k = 0"
    using assms unfolding in_set_conv_nth by blast
  show "y ! i \<noteq> 0" if "i < (LEAST i. y ! i = 0)" for i
    using not_less_Least [OF that] .
  show "\<not> y ! (LEAST i. y ! i = 0) \<noteq> 0"
    using LeastI [of "\<lambda>i. y ! i = 0" k] k(2) by simp
qed

lemma remove_eos_takeWhile:
  "remove_eos y = (if takeWhile (\<lambda>t. t \<noteq> 0) y = [] then [1] else takeWhile (\<lambda>t. t \<noteq> 0) y)"
proof (cases "0 \<in> set y")
  case True
  then have ne: "filter (\<lambda>i. y ! i = 0) [0..<length y] \<noteq> []" by (simp add: first_zero_index)
  have "take (hd (filter (\<lambda>i. y ! i = 0) [0..<length y])) y = takeWhile (\<lambda>t. t \<noteq> 0) y"
    unfolding filter_upt_hd(1) [OF ne] takeWhile_least [OF True] ..
  then show ?thesis
    using ne unfolding remove_eos_def Let_def by (simp del: takeWhile_eq_Nil_iff)
next
  case False
  then have f: "filter (\<lambda>i. y ! i = 0) [0..<length y] = []" by (simp add: first_zero_index)
  have tw: "takeWhile (\<lambda>t. t \<noteq> 0) y = y" using False by auto
  show ?thesis unfolding remove_eos_def Let_def f tw by simp
qed

lemma remove_eos_nonempty: "length (remove_eos y) \<ge> 1 \<and> 0 \<notin> set (remove_eos y)"
proof (cases "takeWhile (\<lambda>t. t \<noteq> 0) y = []")
  case True
  then show ?thesis unfolding remove_eos_takeWhile by simp
next
  case False
  then have "length (takeWhile (\<lambda>t. t \<noteq> 0) y) \<ge> 1" by (simp add: Suc_le_eq)
  moreover have "0 \<notin> set (takeWhile (\<lambda>t. t \<noteq> 0) y)" by (auto dest: set_takeWhileD)
  ultimately show ?thesis using False unfolding remove_eos_takeWhile by simp
qed

section \<open>The decoded sequences of \<^verbatim>\<open>translate\<close>\<close>

text \<open>
  C6. Whenever \<^verbatim>\<open>translate\<close> returns, every returned sequence is the row of the raw
  result cut before its first token 0 (the whole row when it has none), replaced by
  the single token 1 when nothing is left; so it has length at least 1 and holds no
  token 0.
\<close>

theorem translate_never_empty:
  assumes "translate M train rngs src steps = Inr outs"
  shows "\<exists>raw. translate_raw M train rngs src steps = Inr raw \<and>
           outs = map (\<lambda>y. if takeWhile (\<lambda>t. t \<noteq> 0) y = [] then [1] else takeWhile (\<lambda>t. t \<noteq> 0) y) raw \<and>
           (\<forall>y\<in>set outs. length y \<ge> 1 \<and> 0 \<notin> set y)"
proof -
  from assms obtain raw where raw: "translate_raw M train rngs src steps = Inr raw"
    and outs: "outs = map remove_eos raw"
    by (auto simp: translate_def rbind_eq_Inr)
  have a: "outs = map (\<lambda>y. if takeWhile (\<lambda>t. t \<noteq> 0) y = [] then [1] else takeWhile (\<lambda>t. t \<noteq> 0) y) raw"
    unfolding outs by (rule map_cong [OF refl]) (rule remove_eos_takeWhile)
  have b: "\<forall>y\<in>set outs. length y \<ge> 1 \<and> 0 \<notin> set y"
  proof
    fix y assume "y \<in> set outs"
    then obtain r where "y = remove_eos r" unfolding outs by auto
    then show "length y \<ge> 1 \<and> 0 \<notin> set y" using remove_eos_nonempty [of r] by simp
  qed
  from raw a b show ?thesis by blast
qed

theorem translate_never_empty_witness:
  "translate ex_model False (\<lambda>_ _ _ _ _. True) (Block [[1]]) 5 = Inr [[2]] \<and>
   (\<exists>raw. translate_raw ex_model False (\<lambda>_ _ _ _ _. True) (Block [[1]]) 5 = Inr raw \<and>
      [[2]] = map (\<lambda>y. if takeWhile (\<lambda>t. t \<noteq> 0) y = [] then [1] else takeWhile (\<lambda>t. t \<noteq> 0) y) raw \<and>
      (\<forall>y\<in>set [[2::int]]. length y \<ge> 1 \<and> 0 \<notin> set y))"
proof -
  have h: "translate ex_model False (\<lambda>_ _ _ _ _. True) (Block [[1]]) 5 = Inr [[2]]"
    by (simp add: fl_arith array_defs chainer_defs net_defs translate_defs remove_eos_def Let_def
        ex_model_def ex_embed_def ex_embed_position_def eval_nat_numeral)
  from translate_never_empty [OF h] h show ?thesis by simp
qed

section \<open>The attention query of the decoder\<close>

text \<open>
  C5. The claim says that the query given to the attention unit is
  \<^verbatim>\<open>base_x + preatt\<close>. The code computes that sum and then overwrites it: the query
  is the state \<^verbatim>\<open>x\<close> after the convolution, whatever the projection and the
  embedding are. With the projection \<open>v \<mapsto> v\<close>, the embedding 1 and the state 2 the
  sum is 3 and the query is 2.
\<close>

lemma decoder_query_is_state: "decoder_query l base_x x = Inr q \<Longrightarrow> q = x"
  by (auto simp: decoder_query_def rbind_eq_Inr)

theorem decoder_query_drops_preatt:
  "decoder_query ex_preatt [[[Fin 1]]] [[[Fin 2]]] = Inr [[[Fin 2]]] \<and>
   rbind (seq_linear ex_preatt [[[Fin 2]]]) (F_add [[[Fin 1]]]) = Inr [[[Fin 3]]]"
  by (simp add: fl_arith array_defs chainer_defs net_defs ex2_defs Let_def)

section \<open>Sequences longer than \<^verbatim>\<open>max_length\<close>\<close>

text \<open>
  C3. The positions from \<^verbatim>\<open>max_length\<close> on are written into the array that
  \<^verbatim>\<open>broadcast_to\<close> returned. Where that array can be written (cupy) they become
  \<^verbatim>\<open>max_length - 1\<close>, as the claim says; numpy refuses the assignment, and the
  forward call of a source of three tokens on a model of two positions is rejected.
\<close>

lemma position_block_numpy:
  "maxlen < max_len \<Longrightarrow> position_block Numpy batch max_len maxlen = Inl ReadOnlyAssignment"
  by (simp add: position_block_def xp_broadcast_to_def setitem_cols_from_def)

lemma position_block_cupy:
  "position_block Cupy batch max_len maxlen =
     Inr (replicate batch (map (\<lambda>i. if i < maxlen then int i else int maxlen - 1) [0..<max_len]))"
proof -
  have "take maxlen (map int [0..<max_len]) @ replicate (max_len - maxlen) (int maxlen - 1) =
        map (\<lambda>i. if i < maxlen then int i else int maxlen - 1) [0..<max_len]"
    if "maxlen < max_len"
  proof (rule nth_equalityI)
    show "length (take maxlen (map int [0..<max_len]) @ replicate (max_len - maxlen) (int maxlen - 1)) =
          length (map (\<lambda>i. if i < maxlen then int i else int maxlen - 1) [0..<max_len])"
      using that by simp
    fix i
    assume "i < length (take maxlen (map int [0..<max_len]) @ replicate (max_len - maxlen) (int maxlen - 1))"
    then have "i < max_len" using that by simp
    then show "(take maxlen (map int [0..<max_len]) @ replicate (max_len - maxlen) (int maxlen - 1)) ! i =
          map (\<lambda>i. if i < maxlen then int i else int maxlen - 1) [0..<max_len] ! i"
      using that by (simp add: nth_append)
  qed
  moreover have "map (\<lambda>i. if i < maxlen then int i else int maxlen - 1) [0..<max_len] = map int [0..<max_len]"
    if "\<not> maxlen < max_len"
    using that by simp
  ultimately show ?thesis
    by (cases "maxlen < max_len")
      (simp_all add: position_block_def xp_broadcast_to_def setitem_cols_from_def Let_def)
qed

theorem long_source_rejected_on_numpy:
  "Seq2seq_call False no_drop ex_model2 [[1, 2, 1]] [[0]] [[0]] True = Inl ReadOnlyAssignment \<and>
   Seq2seq_call False no_drop (ex_model2\<lparr>xp := Cupy\<rparr>) [[1, 2, 1]] [[0]] [[0]] True =
     Inr (Prediction [[[Fin res_scale, Fin (2 * res_scale), Fin 0]]])"
  by (simp add: fl_arith array_defs chainer_defs net_defs ex2_defs Let_def eval_more)

section \<open>The target tokens that a decoder position depends on\<close>

text \<open>
  C2. \<^verbatim>\<open>sentence_block_embed\<close> reshapes the embedded rows \<^verbatim>\<open>[batch * length, units]\<close>
  to \<^verbatim>\<open>[batch, units, length]\<close> without transposing them, so the column of position 0
  holds components of the embeddings of later tokens. Two target inputs that differ
  at position 1 only give different logits at position 0: with the target input
  \<open>[0, 1]\<close> the second logit there is \<open>3 * res_scale\<close>, with \<open>[0, 2]\<close> it is
  \<open>5 * res_scale\<close>.
\<close>

theorem decoder_position_sees_later_token:
  "Seq2seq_call False no_drop ex_model2 [[1, 2]] [[0, 1]] [[0, 1]] True =
     Inr (Prediction [[[Fin res_scale, Fin (3 * res_scale), Fin 0],
                       [Fin (2 * res_scale), Fin (4 * res_scale), Fin 0]]]) \<and>
   Seq2seq_call False no_drop ex_model2 [[1, 2]] [[0, 2]] [[0, 2]] True =
     Inr (Prediction [[[Fin res_scale, Fin (5 * res_scale), Fin 0],
                       [Fin (2 * res_scale), Fin (6 * res_scale), Fin 0]]]) \<and>
   Fin (3 * res_scale) \<noteq> Fin (5 * res_scale)"
  using res_scale_pos
  by (simp add: fl_arith array_defs chainer_defs net_defs ex2_defs Let_def eval_more)

section \<open>Attention over a row that is masked everywhere\<close>

lemma F_where_eq_Inr:
  assumes "F_where c x y = Inr r"
  shows "map length x = map length c" "map length y = map length c" "length r = length c"
    and "\<And>i j. i < length c \<Longrightarrow> j < length (c ! i) \<Longrightarrow>
           r ! i ! j = (if c ! i ! j then x ! i ! j else y ! i ! j)"
    and "\<And>i. i < length c \<Longrightarrow> length (r ! i) = length (c ! i)"
proof -
  from assms have sh: "map length c = map length x" "map length x = map length y"
    and r: "r = map2 (\<lambda>cr (xr, yr). map2 (\<lambda>cv (xv, yv). if cv then xv else yv) cr (zip xr yr)) c (zip x y)"
    by (auto simp: F_where_def split: if_splits)
  show "map length x = map length c" "map length y = map length c" using sh by simp_all
  have len: "length x = length c" "length y = length c"
    using sh by (metis length_map)+
  show "length r = length c" using len by (simp add: r)
  have rows: "length (x ! i) = length (c ! i)" "length (y ! i) = length (c ! i)" if "i < length c" for i
    using sh that len by (metis nth_map)+
  show "r ! i ! j = (if c ! i ! j then x ! i ! j else y ! i ! j)"
    if "i < length c" "j < length (c ! i)" for i j
    using that len rows [OF that(1)] by (simp add: r)
  show "length (r ! i) = length (c ! i)" if "i < length c" for i
    using that len rows [OF that] by (simp add: r)
qed

lemma foldl_fl_max_NInf: "foldl fl_max NInf (replicate n NInf) = NInf"
  by (induction n) simp_all

lemma sum_list_replicate_NaN: "0 < n \<Longrightarrow> sum_list (replicate n NaN) = NaN"
  by (cases n) (simp_all add: plus_fl_def)

lemma softmax_row_all_NInf:
  assumes "0 < n"
  shows "softmax_row (replicate n NInf) = Inr (replicate n NaN)"
proof -
  obtain k where n: "n = Suc k" using assms by (cases n) auto
  show ?thesis
    unfolding n softmax_row_def
    by (simp add: foldl_fl_max_NInf minus_fl_def plus_fl_def divide_fl_def Let_def)
qed

lemma softmax_row_empty: "softmax_row [] = Inl EmptyReduction"
  by (simp add: softmax_row_def)

lemma fl_zero_times: "(0::fl) * v = (if isfinite v then 0 else NaN)"
  by (cases v) (simp_all add: times_fl_def zero_fl_def)

lemma sum_list_zero_times:
  "sum_list (map (\<lambda>x. (0::fl) * x) xs) = (if \<forall>x\<in>set xs. isfinite x then 0 else NaN)"
proof (induction xs)
  case Nil
  show ?case by simp
next
  case (Cons x xs)
  then show ?case
    by (cases x; cases "\<forall>x\<in>set xs. isfinite x") (simp_all add: times_fl_def plus_fl_def zero_fl_def)
qed

lemma map2_replicate_left: "length xs = n \<Longrightarrow> map2 f (replicate n a) xs = map (f a) xs"
  by (rule nth_equalityI) simp_all

lemma attend_example_masked_row:
  assumes ok: "attend_example q k v m = Inr c"
    and t: "t < length m" and row: "\<forall>x\<in>set (m ! t). \<not> x"
    and u: "u < length v"
  shows "c ! u ! t = (if \<forall>s<length (m ! t). isfinite (v ! u ! t ! s) then 0 else NaN)"
proof -
  let ?n = "length (m ! t)"
  from ok obtain pre_a w a a' pre_c where
    w: "F_where m pre_a (map (map (\<lambda>_. NInf)) pre_a) = Inr w"
    and a: "F_softmax w = Inr a"
    and a': "F_where (map (map isnan) a) (map (map (\<lambda>_. 0)) a) a = Inr a'"
    and pc: "broadcast_mul a' v = Inr pre_c"
    and c: "c = map (map sum_list) pre_c"
    unfolding attend_example_def Let_def rbind_eq_Inr by auto
  \<comment> \<open>the masked scores of the row are all minus infinity\<close>
  note W = F_where_eq_Inr [OF w]
  have lpa: "length pre_a = length m" using W(1) by (metis length_map)
  have lpat: "length (pre_a ! t) = ?n" using W(1) t lpa by (metis nth_map)
  have wt: "w ! t = replicate ?n NInf"
  proof (rule nth_equalityI)
    show "length (w ! t) = length (replicate ?n NInf)" using W(5) [OF t] by simp
    fix j assume "j < length (w ! t)"
    then have j: "j < ?n" using W(5) [OF t] by simp
    then have "m ! t ! j \<in> set (m ! t)" by (rule nth_mem)
    then have "\<not> m ! t ! j" using row by blast
    then show "w ! t ! j = replicate ?n NInf ! j"
      using W(4) [OF t j] j t lpa lpat by simp
  qed
  \<comment> \<open>their softmax is all NaN\<close>
  from a have la: "length a = length w" and at: "softmax_row (w ! t) = Inr (a ! t)"
    using t W(3) unfolding F_softmax_def rmap_eq_Inr by auto
  have npos: "0 < ?n"
  proof (rule ccontr)
    assume "\<not> 0 < ?n"
    then have "w ! t = []" using wt by simp
    then show False using at by (simp add: softmax_row_empty)
  qed
  have at': "a ! t = replicate ?n NaN"
    using at softmax_row_all_NInf [OF npos] wt by simp
  \<comment> \<open>and is replaced by zero\<close>
  note A = F_where_eq_Inr [OF a']
  have ta: "t < length a" using la W(3) t by simp
  have a't: "a' ! t = replicate ?n 0"
  proof (rule nth_equalityI)
    show "length (a' ! t) = length (replicate ?n (0::fl))"
      using A(5) [of t] ta at' by simp
    fix j assume "j < length (a' ! t)"
    then have j: "j < ?n" using A(5) [of t] ta at' by simp
    then show "a' ! t ! j = replicate ?n 0 ! j"
      using A(4) [of t j] ta at' by simp
  qed
  have la': "length a' = length a" using A(3) by simp
  \<comment> \<open>the weighted values: zero times a value that is not finite is NaN\<close>
  from pc have shv: "list_all (\<lambda>vu. map length vu = map length a') v"
    and pc': "pre_c = map (\<lambda>vu. map2 (map2 (*)) a' vu) v"
    by (auto simp: broadcast_mul_def split: if_splits)
  have vu: "map length (v ! u) = map length a'"
    using shv u by (simp add: list_all_length)
  then have lvu: "length (v ! u) = length a'" by (metis length_map)
  have lvut: "length (v ! u ! t) = ?n"
    using vu ta la' lvu a't by (metis length_replicate nth_map)
  have "pre_c ! u ! t = map2 (*) (a' ! t) (v ! u ! t)"
    using u ta la' lvu by (simp add: pc')
  also have "\<dots> = map (\<lambda>x. 0 * x) (v ! u ! t)"
    unfolding a't using lvut by (rule map2_replicate_left)
  finally have "pre_c ! u ! t = map (\<lambda>x. 0 * x) (v ! u ! t)" .
  moreover have "c ! u ! t = sum_list (pre_c ! u ! t)"
    using u ta la' lvu by (simp add: c pc')
  moreover have "(\<forall>x\<in>set (v ! u ! t). isfinite x) \<longleftrightarrow> (\<forall>s<?n. isfinite (v ! u ! t ! s))"
    using lvut by (simp add: all_set_conv_all_nth)
  ultimately show ?thesis by (simp add: sum_list_zero_times)
qed

text \<open>
  C1. When the attention unit returns and the mask row of batch \<open>b\<close> and target
  position \<open>t\<close> is false everywhere, the scores of the row are all minus infinity,
  their softmax is all NaN and is replaced by zero weights; the context at
  \<open>(b, u, t)\<close> is then exactly zero for every unit \<open>u\<close> whose values in that row are
  finite, and NaN for a unit that has an infinite value or a NaN in that row.
\<close>

theorem attend_masked_row_zero:
  assumes "attend query key v msk = Inr c"
    and "b < length msk" and "t < length (msk ! b)"
    and "\<forall>x\<in>set (msk ! b ! t). \<not> x"
    and "u < length (v ! b)"
  shows "c ! b ! u ! t =
    (if \<forall>s<length (msk ! b ! t). isfinite (v ! b ! u ! t ! s) then Fin 0 else NaN)"
proof -
  from assms(1) have len: "length query = length msk"
    and "rmap (\<lambda>b. attend_example (query ! b) (key ! b) (v ! b) (msk ! b)) [0..<length query] = Inr c"
    by (auto simp: attend_def split: if_splits)
  then have "attend_example (query ! b) (key ! b) (v ! b) (msk ! b) = Inr (c ! b)"
    using assms(2) unfolding rmap_eq_Inr by simp
  from attend_example_masked_row [OF this assms(3-5)] show ?thesis
    by (simp add: zero_fl_def)
qed

theorem attend_masked_row_zero_witness:
  "attend [[[Fin 1]]] [[[Fin 1, Fin 2]]] [[[[Fin 1, Fin 2]]]] [[[False, False]]] = Inr [[[Fin 0]]] \<and>
   [[[Fin 0]]] ! 0 ! 0 ! 0 = Fin 0"
proof -
  have h: "attend [[[Fin 1]]] [[[Fin 1, Fin 2]]] [[[[Fin 1, Fin 2]]]] [[[False, False]]] = Inr [[[Fin 0]]]"
    by (simp add: fl_arith array_defs chainer_defs net_defs Let_def)
  from attend_masked_row_zero [OF h, of 0 0 0] h show ?thesis by simp
qed

text \<open>
  The claim has no condition on the values. With an infinite value in the row the
  zero weight times the value is NaN, and so is the context.
\<close>

theorem attend_masked_row_infinite_value:
  "attend [[[Fin 1]]] [[[Fin 1, Fin 2]]] [[[[Fin 1, PInf]]]] [[[False, False]]] = Inr [[[NaN]]] \<and>
   NaN \<noteq> Fin 0"
  by (simp add: fl_arith array_defs chainer_defs net_defs Let_def)

section \<open>Greedy decoding and the random draws\<close>

text \<open>
  The draws of a forward call are read by \<^verbatim>\<open>F.dropout\<close> only, and \<^verbatim>\<open>F.dropout\<close> is the
  identity when \<^verbatim>\<open>chainer.config.train\<close> is off. The flag is an argument of the model
  here: \<^verbatim>\<open>translate\<close> enters \<^verbatim>\<open>chainer.no_backprop_mode()\<close>, which leaves the flag as it
  is, and nothing in \<^verbatim>\<open>net.py\<close> sets it.
\<close>

lemma ConvGLU_call_eval: "ConvGLU_call False keep g x = rmap (ConvGLU_example g) x"
  by (simp add: ConvGLU_call_def F_dropout_def)

lemma ConvGLUEncoder_loop_eval:
  "ConvGLUEncoder_loop False rng i ls x = ConvGLUEncoder_loop False no_drop i ls x"
  by (induction ls arbitrary: i x) (simp_all add: ConvGLU_call_eval)

lemma decoder_layer_eval:
  "decoder_layer False keep cv l base_x z ze msk att x =
   decoder_layer False (no_drop site) cv l base_x z ze msk att x"
  by (simp add: decoder_layer_def ConvGLU_call_eval)

lemma ConvGLUDecoder_loop_eval:
  "ConvGLUDecoder_loop False rng i ls base_x z ze msk att x =
   ConvGLUDecoder_loop False no_drop i ls base_x z ze msk att x"
proof (induction ls arbitrary: i x)
  case Nil
  show ?case by simp
next
  case (Cons p ls)
  obtain cv l where p: "p = (cv, l)" by (cases p)
  have "ConvGLUDecoder_loop False rng (Suc i) ls base_x z ze msk att =
        ConvGLUDecoder_loop False no_drop (Suc i) ls base_x z ze msk att"
    by (rule ext) (rule Cons.IH)
  then show ?case
    unfolding p ConvGLUDecoder_loop.simps
      decoder_layer_eval [of "rng (DecoderLayer i)" _ _ _ _ _ _ _ _ "DecoderLayer i"]
    by simp
qed

lemma F_dropout2_eval: "F_dropout2 False ratio keep x = Inr x"
  by (simp add: F_dropout2_def)

lemma Seq2seq_forward_eval:
  "Seq2seq_forward False rng M x y = Seq2seq_forward False no_drop M x y"
  unfolding Seq2seq_forward_def ConvGLUEncoder_call_def ConvGLUDecoder_call_def
    ConvGLUEncoder_loop_eval [of rng] ConvGLUDecoder_loop_eval [of rng] F_dropout2_eval ..

lemma Seq2seq_call_eval:
  "Seq2seq_call False rng M x y yo g = Seq2seq_call False no_drop M x y yo g"
  unfolding Seq2seq_call_def Seq2seq_forward_eval [of rng] ..

lemma translate_loop_eval:
  "translate_loop M False rngs x n i y e r = translate_loop M False (\<lambda>_. no_drop) x n i y e r"
proof (induction n arbitrary: i y e r)
  case 0
  show ?case by simp
next
  case (Suc n)
  show ?case
    unfolding translate_loop.simps Seq2seq_call_eval [of "rngs i"] Suc.IH [of "Suc i"] ..
qed

text \<open>
  C4. When the train flag of chainer is off, two invocations of \<^verbatim>\<open>translate\<close> on the
  same model, the same source and the same number of steps return the same result,
  whatever the random draws of the two invocations are.
\<close>

theorem translate_deterministic:
  assumes "\<not> train"
  shows "translate M train rngs1 src steps = translate M train rngs2 src steps"
proof -
  from assms have t: "train = False" by simp
  show ?thesis
    unfolding t translate_def translate_raw_def
      translate_loop_eval [of M rngs1] translate_loop_eval [of M rngs2] ..
qed

theorem translate_deterministic_witness:
  "\<not> False \<and>
   translate ex_model False (\<lambda>_ _ _ _ _. True) (Block [[1]]) 2 =
   translate ex_model False (\<lambda>_ _ _ _ _. False) (Block [[1]]) 2 \<and>
   translate ex_model False (\<lambda>_ _ _ _ _. False) (Block [[1]]) 2 = Inr [[2]]"
proof -
  have "translate ex_model False (\<lambda>_ _ _ _ _. False) (Block [[1]]) 2 = Inr [[2]]"
    by (simp add: fl_arith array_defs chainer_defs net_defs translate_defs remove_eos_def Let_def
        ex_model_def ex_embed_def ex_embed_position_def eval_nat_numeral)
  with translate_deterministic [of False ex_model "\<lambda>_ _ _ _ _. True" "Block [[1]]" 2
      "\<lambda>_ _ _ _ _. False"]
  show ?thesis by simp
qed

text \<open>
  The claim as it is written takes the dropout to be off in \<^verbatim>\<open>translate\<close>. With the
  flag on, as chainer has it unless the caller turns it off, the draws of the dropout
  before the output layer decide the result: the same model and the same source
  give \<open>[2]\<close> when every element is kept and \<open>[2, 2]\<close> when every element is dropped.
\<close>

theorem translate_train_mode_depends_on_draws:
  "translate ex_model True (\<lambda>_ _ _ _ _. True) (Block [[1]]) 2 = Inr [[2]] \<and>
   translate ex_model True (\<lambda>_ _ _ _ _. False) (Block [[1]]) 2 = Inr [[2, 2]]"
  by (simp add: fl_arith array_defs chainer_defs net_defs translate_defs remove_eos_def Let_def
        ex_model_def ex_embed_def ex_embed_position_def eval_nat_numeral)

section \<open>The shape of the output of a gated convolution\<close>

lemma is_mat_iff: "is_mat r c m \<longleftrightarrow> length m = r \<and> (\<forall>i<r. length (m ! i) = c)"
  by (auto simp: is_mat_def list_all_length)

lemma is_tensor3_iff: "is_tensor3 b u l x \<longleftrightarrow> length x = b \<and> (\<forall>i<b. is_mat u l (x ! i))"
  by (auto simp: is_tensor3_def list_all_length)

lemma ncols_is_mat: "is_mat r c m \<Longrightarrow> 0 < r \<Longrightarrow> ncols m = c"
  by (cases m) (auto simp: is_mat_def ncols_def)

lemma kernel_width_is_tensor3: "is_tensor3 a b c W \<Longrightarrow> 0 < a \<Longrightarrow> 0 < b \<Longrightarrow> kernel_width W = c"
  by (cases W) (auto simp: is_tensor3_def kernel_width_def ncols_is_mat)

lemma rmap_total:
  assumes "\<And>x. x \<in> set xs \<Longrightarrow> \<exists>y. f x = Inr y \<and> P y"
  shows "\<exists>ys. rmap f xs = Inr ys \<and> length ys = length xs \<and> list_all P ys"
  using assms
proof (induction xs)
  case Nil
  show ?case by simp
next
  case (Cons x xs)
  from Cons.prems obtain y where y: "f x = Inr y" "P y" by auto
  from Cons.IH Cons.prems obtain ys where "rmap f xs = Inr ys" "length ys = length xs" "list_all P ys"
    by auto
  with y show ?case by simp
qed

lemma imap_length [simp]: "length (imap f xs) = length xs"
  by (simp add: imap_def)

lemma imap_nth [simp]: "i < length xs \<Longrightarrow> imap f xs ! i = f i (xs ! i)"
  by (simp add: imap_def)

lemma F_dropout_shape:
  assumes "is_tensor3 b u l x" "train \<longrightarrow> ratio \<noteq> 1"
  shows "\<exists>y. F_dropout train ratio keep x = Inr y \<and> is_tensor3 b u l y"
  using assms by (auto simp: F_dropout_def is_tensor3_iff is_mat_iff)

lemma conv_example_shape:
  assumes W: "is_tensor3 (2 * units) units width (conv_W cv)"
    and b: "length (conv_b cv) = 2 * units"
    and u: "0 < units"
    and x: "is_mat units len x"
    and fits: "width \<le> len + 2 * conv_pad cv"
  shows "\<exists>h. conv_example cv x = Inr h \<and> is_mat (2 * units) (len + 2 * conv_pad cv + 1 - width) h"
proof -
  have kw: "kernel_width (conv_W cv) = width"
    using kernel_width_is_tensor3 [OF W] u by simp
  have nc: "ncols (conv_W cv) = units"
    using W u by (cases "conv_W cv") (auto simp: is_tensor3_def ncols_def is_mat_def)
  have lx: "length x = units" "ncols x = len"
    using x u ncols_is_mat [OF x] by (auto simp: is_mat_def)
  have lw: "length (conv_W cv) = 2 * units" using W by (simp add: is_tensor3_def)
  show ?thesis
    using fits x
    by (simp add: conv_example_def Let_def kw nc lx lw b is_mat_iff)
qed

lemma ConvGLU_example_shape:
  assumes inv: "ConvGLU_inv units width nopad g" and u: "0 < units"
    and x: "is_mat units len x"
    and fits: "width \<le> len + 2 * conv_pad (glu_conv g)"
  shows "\<exists>y. ConvGLU_example g x = Inr y \<and>
           is_mat units (len + 2 * conv_pad (glu_conv g) + 1 - width) y"
proof -
  let ?n = "len + 2 * conv_pad (glu_conv g) + 1 - width"
  from inv have W: "is_tensor3 (2 * units) units width (conv_W (glu_conv g))"
    and b: "length (conv_b (glu_conv g)) = 2 * units"
    by (simp_all add: ConvGLU_inv_def)
  from conv_example_shape [OF W b u x fits] obtain h where
    h: "conv_example (glu_conv g) x = Inr h" and hs: "is_mat (2 * units) ?n h" by blast
  have lh: "length h = 2 * units" and rows: "\<And>i. i < 2 * units \<Longrightarrow> length (h ! i) = ?n"
    using hs by (simp_all add: is_mat_iff)
  have sp: "F_split_axis h = Inr (take units h, drop units h)"
    by (simp add: F_split_axis_def lh)
  have eq: "map length (take units h) = map length (drop units h)"
    by (rule nth_equalityI) (simp_all add: lh rows)
  have "is_mat units ?n (map2 (map2 (*)) (take units h) (map (map fl_sigmoid) (drop units h)))"
    by (simp add: is_mat_iff lh rows)
  then show ?thesis
    by (simp add: ConvGLU_example_def h sp eq)
qed

lemma ConvGLU_call_shape:
  assumes inv: "ConvGLU_inv units width nopad g" and u: "0 < units"
    and x: "is_tensor3 batch units len x"
    and fits: "width \<le> len + 2 * (width div 2 * (1 - of_bool nopad))"
    and dr: "train \<longrightarrow> glu_dropout g \<noteq> 1"
  shows "\<exists>y. ConvGLU_call train keep g x = Inr y \<and>
           is_tensor3 batch units (len + 2 * (width div 2 * (1 - of_bool nopad)) + 1 - width) y \<and>
           (\<not> nopad \<and> odd width \<longrightarrow> is_tensor3 batch units len y)"
proof -
  let ?n = "len + 2 * (width div 2 * (1 - of_bool nopad)) + 1 - width"
  have pad: "conv_pad (glu_conv g) = width div 2 * (1 - of_bool nopad)"
    using inv by (simp add: ConvGLU_inv_def)
  from F_dropout_shape [OF x dr] obtain x' where
    x': "F_dropout train (glu_dropout g) keep x = Inr x'" and xs: "is_tensor3 batch units len x'"
    by blast
  have "\<exists>y. ConvGLU_example g m = Inr y \<and> is_mat units ?n y" if "m \<in> set x'" for m
  proof -
    have "is_mat units len m" using xs that by (auto simp: is_tensor3_def list_all_iff)
    from ConvGLU_example_shape [OF inv u this] fits show ?thesis by (simp add: pad)
  qed
  from rmap_total [of x' "ConvGLU_example g" "is_mat units ?n", OF this] obtain y where
    y: "rmap (ConvGLU_example g) x' = Inr y" "length y = length x'" "list_all (is_mat units ?n) y"
    by blast
  have ys: "is_tensor3 batch units ?n y"
    using y xs by (simp add: is_tensor3_def)
  have "?n = len" if "\<not> nopad" "odd width"
  proof -
    from that(2) obtain k where "width = 2 * k + 1" by (auto elim: oddE)
    then show ?thesis using that(1) by simp
  qed
  with ys have "\<not> nopad \<and> odd width \<longrightarrow> is_tensor3 batch units len y" by auto
  with ys show ?thesis by (simp add: ConvGLU_call_def x' y(1))
qed


text \<open>
  C7. A link made by \<^verbatim>\<open>ConvGLU(n_units, width, dropout, nopad)\<close>, on a hidden state
  \<^verbatim>\<open>[batch, units, length]\<close> that is long enough for the kernel, returns an array with
  \<open>units\<close> channels (half of the \<open>2 * units\<close> channels of the convolution) and
  \<open>length + 2 * pad + 1 - width\<close> positions; when \<^verbatim>\<open>nopad\<close> is false and the width is
  odd, that is the length of the input.
\<close>

theorem ConvGLU_output_shape:
  assumes inv: "ConvGLU_inv units width nopad g" and u: "0 < units"
    and x: "is_tensor3 batch units len x"
    and fits: "width \<le> len + 2 * (width div 2 * (1 - of_bool nopad))"
    and dr: "train \<longrightarrow> glu_dropout g \<noteq> 1"
  shows "\<exists>y. ConvGLU_call train keep g x = Inr y \<and>
           is_tensor3 batch units (len + 2 * (width div 2 * (1 - of_bool nopad)) + 1 - width) y \<and>
           (\<not> nopad \<and> odd width \<longrightarrow> is_tensor3 batch units len y)"
  using assms by (rule ConvGLU_call_shape)

theorem ConvGLU_output_shape_witness:
  "ConvGLU_inv 2 5 False ex_glu \<and>
   is_tensor3 1 2 3 [[[Fin 1, Fin 2, Fin 3], [Fin 4, Fin 5, Fin 6]]] \<and>
   ConvGLU_call False (\<lambda>_ _ _. True) ex_glu [[[Fin 1, Fin 2, Fin 3], [Fin 4, Fin 5, Fin 6]]] =
     Inr [[[Fin (1 / 2), Fin 1, Fin (3 / 2)], [Fin 2, Fin (5 / 2), Fin 3]]] \<and>
   is_tensor3 1 2 3 [[[Fin (1 / 2), Fin 1, Fin (3 / 2)], [Fin 2, Fin (5 / 2), Fin 3]]]"
proof -
  let ?x = "[[[Fin 1, Fin 2, Fin 3], [Fin 4, Fin 5, Fin 6]]]"
  have inv: "ConvGLU_inv 2 5 False ex_glu"
    by (simp add: ConvGLU_inv_def ex_glu_def is_tensor3_def is_mat_def)
  have x: "is_tensor3 1 2 3 ?x"
    by (simp add: is_tensor3_def is_mat_def)
  have fits: "(5::nat) \<le> 3 + 2 * (5 div 2 * (1 - of_bool False))" by simp
  have call: "ConvGLU_call False (\<lambda>_ _ _. True) ex_glu ?x =
      Inr [[[Fin (1 / 2), Fin 1, Fin (3 / 2)], [Fin 2, Fin (5 / 2), Fin 3]]]"
    by (simp add: fl_arith array_defs chainer_defs net_defs ex_glu_def Let_def eval_more)
  from ConvGLU_output_shape [OF inv _ x fits, of False "\<lambda>_ _ _. True"] inv x call
  show ?thesis by simp
qed

section \<open>The encoder stack\<close>

lemma rmap_Inr_map: "rmap (\<lambda>x. Inr (f x)) xs = Inr (map f xs)"
  by (induction xs) simp_all

lemma broadcast2_rows:
  "broadcast2 (\<lambda>a b. Inr (g a b)) r r' =
     (if length r = length r' then Inr (map2 g r r')
      else if length r = 1 then Inr (map (g (hd r)) r')
      else if length r' = 1 then Inr (map (\<lambda>a. g a (hd r')) r)
      else Inl ShapeMismatch)"
  by (simp add: broadcast2_def rmap_Inr_map case_prod_unfold)

lemma broadcast2_axis_inv:
  assumes "length xs = n" "length ys = n" "broadcast2 f xs ys = Inr s"
  shows "length s = n \<and> (\<forall>i<n. f (xs ! i) (ys ! i) = Inr (s ! i))"
  using assms by (simp add: broadcast2_def rmap_eq_Inr)

lemma broadcast2_axis:
  assumes len: "length xs = n" "length ys = n"
    and ok: "\<And>i. i < n \<Longrightarrow> \<exists>s. f (xs ! i) (ys ! i) = Inr s \<and> P s"
  shows "\<exists>s. broadcast2 f xs ys = Inr s \<and> length s = n \<and> (\<forall>i<n. P (s ! i))"
proof -
  have "\<exists>s. (case p of (x, y) \<Rightarrow> f x y) = Inr s \<and> P s" if "p \<in> set (zip xs ys)" for p
  proof -
    from that obtain i where "i < n" "p = (xs ! i, ys ! i)"
      using len by (auto simp: in_set_conv_nth)
    with ok [of i] show ?thesis by simp
  qed
  from rmap_total [of "zip xs ys" "\<lambda>(x, y). f x y" P, OF this] show ?thesis
    using len by (auto simp: broadcast2_def list_all_length)
qed

lemma add_rows_ok:
  assumes "length r = l" "length r' = l'" "l = l' \<or> l = 1 \<or> l' = 1"
  shows "\<exists>s. broadcast2 (\<lambda>a b. Inr (a + b)) r r' = Inr s \<and> length s = (if l = 1 then l' else l)"
  using assms by (auto simp: broadcast2_rows)

lemma add_rows_inv:
  assumes "length r = l" "length r' = l'" "broadcast2 (\<lambda>a b. Inr (a + b)) r r' = Inr (s::fl list)"
  shows "l = l' \<or> l = 1 \<or> l' = 1"
  using assms by (auto simp: broadcast2_rows split: if_splits)

lemma add_mats_ok:
  assumes "is_mat u l m" "is_mat u l' m'" "l = l' \<or> l = 1 \<or> l' = 1"
  shows "\<exists>s. broadcast2 (broadcast2 (\<lambda>a b. Inr (a + b))) m m' = Inr s \<and>
           is_mat u (if l = 1 then l' else l) s"
proof -
  have "\<exists>s. broadcast2 (\<lambda>a b. Inr (a + b)) (m ! i) (m' ! i) = Inr s \<and>
          length s = (if l = 1 then l' else l)" if "i < u" for i
    using assms that by (intro add_rows_ok) (simp_all add: is_mat_iff)
  from broadcast2_axis [of m u m' "broadcast2 (\<lambda>a b. Inr (a + b))"
      "\<lambda>s. length s = (if l = 1 then l' else l)", OF _ _ this]
  show ?thesis using assms(1,2) by (simp add: is_mat_iff)
qed

lemma add_mats_inv:
  assumes "is_mat u l m" "is_mat u l' m'" "0 < u"
    and "broadcast2 (broadcast2 (\<lambda>a b. Inr (a + b))) m m' = Inr (s::fl list list)"
  shows "l = l' \<or> l = 1 \<or> l' = 1"
proof -
  from broadcast2_axis_inv [OF _ _ assms(4), of u] assms(1-3)
  have "broadcast2 (\<lambda>a b. Inr (a + b)) (m ! 0) (m' ! 0) = Inr (s ! 0)"
    by (simp add: is_mat_iff)
  moreover have "length (m ! 0) = l" "length (m' ! 0) = l'"
    using assms(1-3) by (simp_all add: is_mat_iff)
  ultimately show ?thesis by (intro add_rows_inv)
qed

lemma F_add_broadcasts:
  assumes "is_tensor3 b u l x" "is_tensor3 b u l' h" "l = l' \<or> l = 1 \<or> l' = 1"
  shows "\<exists>s. F_add x h = Inr s \<and> is_tensor3 b u (if l = 1 then l' else l) s"
proof -
  have "\<exists>s. broadcast2 (broadcast2 (\<lambda>a b. Inr (a + b))) (x ! i) (h ! i) = Inr s \<and>
          is_mat u (if l = 1 then l' else l) s" if "i < b" for i
    using assms that by (intro add_mats_ok) (simp_all add: is_tensor3_iff)
  from broadcast2_axis [of x b h "broadcast2 (broadcast2 (\<lambda>a b. Inr (a + b)))"
      "is_mat u (if l = 1 then l' else l)", OF _ _ this]
  show ?thesis using assms(1,2) by (simp add: is_tensor3_iff F_add_def)
qed

lemma F_add_returns:
  assumes x: "is_tensor3 b u l x" and h: "is_tensor3 b u l' h" and pos: "0 < b" "0 < u"
    and ok: "F_add x h = Inr s"
  shows "(l = l' \<or> l = 1 \<or> l' = 1) \<and> is_tensor3 b u (if l = 1 then l' else l) s"
proof -
  from broadcast2_axis_inv [OF _ _ ok [unfolded F_add_def], of b] x h pos(1)
  have "broadcast2 (broadcast2 (\<lambda>a b. Inr (a + b))) (x ! 0) (h ! 0) = Inr (s ! 0)"
    by (simp add: is_tensor3_iff)
  moreover have "is_mat u l (x ! 0)" "is_mat u l' (h ! 0)"
    using x h pos(1) by (simp_all add: is_tensor3_iff)
  ultimately have c: "l = l' \<or> l = 1 \<or> l' = 1" using pos(2) by (intro add_mats_inv)
  from F_add_broadcasts [OF x h c] ok show ?thesis using c by auto
qed

lemma F_add_shape:
  assumes "is_tensor3 b u l x" "is_tensor3 b u l h"
  shows "\<exists>s. F_add x h = Inr s \<and> is_tensor3 b u l s"
  using F_add_broadcasts [OF assms] by simp

lemma mul_const_shape: "is_tensor3 b u l x \<Longrightarrow> is_tensor3 b u l (mul_const x s)"
  by (simp add: is_tensor3_iff is_mat_iff mul_const_def)

lemma res_scale_sqrt: "res_scale = 1 / sqrt 2"
  by (simp add: res_scale_def powr_half_sqrt real_sqrt_divide)

lemma ConvGLUEncoder_loop_shape:
  assumes "list_all (ConvGLU_inv units width False) ls" "odd width" "0 < units" "0 < len"
    and "is_tensor3 batch units len x"
    and "train \<longrightarrow> list_all (\<lambda>g. glu_dropout g \<noteq> 1) ls"
  shows "\<exists>y. ConvGLUEncoder_loop train rng i ls x = Inr y \<and> is_tensor3 batch units len y"
  using assms
proof (induction ls arbitrary: i x)
  case Nil
  then show ?case by simp
next
  case (Cons l ls)
  have inv: "ConvGLU_inv units width False l" using Cons.prems(1) by simp
  from \<open>odd width\<close> obtain k where k: "width = 2 * k + 1" by (auto elim: oddE)
  have fits: "width \<le> len + 2 * (width div 2 * (1 - of_bool False))"
    using \<open>0 < len\<close> by (simp add: k)
  have dr: "train \<longrightarrow> glu_dropout l \<noteq> 1" using Cons.prems(6) by simp
  from ConvGLU_call_shape [OF inv \<open>0 < units\<close> Cons.prems(5) fits dr, of "rng (EncoderLayer i)"]
  obtain h where h: "ConvGLU_call train (rng (EncoderLayer i)) l x = Inr h"
    and hs: "is_tensor3 batch units len h"
    using \<open>odd width\<close> by auto
  from F_add_shape [OF Cons.prems(5) hs] obtain s where s: "F_add x h = Inr s"
    and ss: "is_tensor3 batch units len s" by blast
  have "\<exists>y. ConvGLUEncoder_loop train rng (Suc i) ls (mul_const s res_scale) = Inr y \<and>
          is_tensor3 batch units len y"
    using Cons.prems by (intro Cons.IH mul_const_shape ss) simp_all
  then show ?case by (simp add: h s)
qed

lemma ConvGLUEncoder_loop_spec:
  "drop i all = ls \<Longrightarrow>
   ConvGLUEncoder_loop train rng i ls x =
   residual_stack_spec (\<lambda>j. ConvGLU_call train (rng (EncoderLayer j)) (all ! j)) i (length ls) x"
proof (induction ls arbitrary: i x)
  case Nil
  show ?case by simp
next
  case (Cons l ls)
  have l: "all ! i = l" using Cons.prems by (rule nth_via_drop)
  have "drop (Suc i) all = ls" using Cons.prems by (metis drop_Suc list.sel(3) tl_drop)
  from Cons.IH [OF this] show ?case
    by (simp add: l res_scale_sqrt mul_const_def)
qed

text \<open>
  C8. The encoder made by \<^verbatim>\<open>ConvGLUEncoder(n_layers, n_units, width, dropout)\<close> with an
  odd width, on a hidden state \<^verbatim>\<open>[batch, units, length]\<close> of at least one position,
  returns an array of the shape of its input, for every number of layers; with no
  layer it returns its input; and it is the chain of the specification, in which
  each layer maps \<open>x\<close> to \<open>x + layer x\<close> scaled by \<open>1 / sqrt 2\<close>.
\<close>

theorem ConvGLUEncoder_residual_stack:
  assumes "ConvGLUEncoder_inv layers units width E" and "odd width" and "0 < units" and "0 < len"
    and "is_tensor3 batch units len x"
    and "train \<longrightarrow> list_all (\<lambda>g. glu_dropout g \<noteq> 1) (enc_links E)"
  shows "\<exists>y. ConvGLUEncoder_call train rng E x = Inr y \<and> is_tensor3 batch units len y \<and>
           (layers = 0 \<longrightarrow> y = x) \<and>
           ConvGLUEncoder_call train rng E x =
             residual_stack_spec (\<lambda>i. ConvGLU_call train (rng (EncoderLayer i)) (enc_links E ! i))
               0 layers x"
proof -
  from assms(1) have len: "length (enc_links E) = layers"
    and inv: "list_all (ConvGLU_inv units width False) (enc_links E)"
    by (simp_all add: ConvGLUEncoder_inv_def)
  from ConvGLUEncoder_loop_shape [OF inv assms(2-6), of rng 0] obtain y where
    y: "ConvGLUEncoder_loop train rng 0 (enc_links E) x = Inr y" "is_tensor3 batch units len y"
    by blast
  have id: "y = x" if "layers = 0"
    using that len y(1) by simp
  have spec: "ConvGLUEncoder_loop train rng 0 (enc_links E) x =
      residual_stack_spec (\<lambda>i. ConvGLU_call train (rng (EncoderLayer i)) (enc_links E ! i)) 0 layers x"
    using ConvGLUEncoder_loop_spec [of 0 "enc_links E" "enc_links E" train rng x] len by simp
  show ?thesis
    unfolding ConvGLUEncoder_call_def using y id spec by auto
qed


theorem ConvGLUEncoder_residual_stack_witness:
  "ConvGLUEncoder_inv 1 2 5 ex_encoder \<and>
   is_tensor3 1 2 3 [[[Fin 1, Fin 2, Fin 3], [Fin 4, Fin 5, Fin 6]]] \<and>
   ConvGLUEncoder_call False no_drop ex_encoder [[[Fin 1, Fin 2, Fin 3], [Fin 4, Fin 5, Fin 6]]] =
     Inr [[[Fin (3 * res_scale / 2), Fin (3 * res_scale), Fin (9 * res_scale / 2)],
           [Fin (6 * res_scale), Fin (15 * res_scale / 2), Fin (9 * res_scale)]]] \<and>
   is_tensor3 1 2 3 [[[Fin (3 * res_scale / 2), Fin (3 * res_scale), Fin (9 * res_scale / 2)],
           [Fin (6 * res_scale), Fin (15 * res_scale / 2), Fin (9 * res_scale)]]] \<and>
   ConvGLUEncoder_call False no_drop ex_encoder [[[Fin 1, Fin 2, Fin 3], [Fin 4, Fin 5, Fin 6]]] =
     residual_stack_spec (\<lambda>i. ConvGLU_call False (no_drop (EncoderLayer i)) (enc_links ex_encoder ! i))
       0 1 [[[Fin 1, Fin 2, Fin 3], [Fin 4, Fin 5, Fin 6]]]"
proof -
  let ?x = "[[[Fin 1, Fin 2, Fin 3], [Fin 4, Fin 5, Fin 6]]]"
  have inv: "ConvGLUEncoder_inv 1 2 5 ex_encoder"
    by (simp add: ConvGLUEncoder_inv_def ConvGLU_inv_def ex_encoder_def ex_glu_def
        is_tensor3_def is_mat_def)
  have x: "is_tensor3 1 2 3 ?x"
    by (simp add: is_tensor3_def is_mat_def)
  have call: "ConvGLUEncoder_call False no_drop ex_encoder ?x =
      Inr [[[Fin (3 * res_scale / 2), Fin (3 * res_scale), Fin (9 * res_scale / 2)],
            [Fin (6 * res_scale), Fin (15 * res_scale / 2), Fin (9 * res_scale)]]]"
    by (simp add: fl_arith array_defs chainer_defs net_defs ex_encoder_def ex_glu_def Let_def
        eval_more no_drop_def)
  from ConvGLUEncoder_residual_stack [OF inv _ _ _ x, of False no_drop] inv x call
  show ?thesis by auto
qed

section \<open>The decoder stack\<close>

subsection \<open>Shapes along one layer\<close>

lemma pad_left_shape: "is_tensor3 b u l x \<Longrightarrow> is_tensor3 b u (l + 2) (pad_left x)"
  by (simp add: is_tensor3_iff is_mat_iff pad_left_def)

lemma is_mat_rows: "is_mat r c m \<Longrightarrow> x \<in> set m \<Longrightarrow> length x = c"
  by (simp add: is_mat_def list_all_iff)

lemma is_mat_length: "is_mat r c m \<Longrightarrow> length m = r"
  by (simp add: is_mat_def)

lemma shape_of_mat: "is_mat r c m \<Longrightarrow> map length m = replicate r c"
  by (rule nth_equalityI) (simp_all add: is_mat_iff)

lemma transpose_mat_shape:
  assumes "is_mat r c m" "0 < r"
  shows "is_mat c r (transpose_mat m)"
proof -
  have "ncols m = c" using ncols_is_mat [OF assms] .
  moreover have "length m = r" using assms(1) by (rule is_mat_length)
  ultimately show ?thesis by (simp add: transpose_mat_def is_mat_iff)
qed

lemma length_concat_uniform:
  "(\<And>x. x \<in> set xs \<Longrightarrow> length x = n) \<Longrightarrow> length (concat xs) = length xs * n"
  by (induction xs) simp_all

lemma nth_concat_uniform:
  "(\<And>x. x \<in> set xs \<Longrightarrow> length x = n) \<Longrightarrow> i < length xs \<Longrightarrow> j < n \<Longrightarrow>
   concat xs ! (i * n + j) = xs ! i ! j"
proof (induction xs arbitrary: i)
  case Nil
  then show ?case by simp
next
  case (Cons x xs)
  have lx: "length x = n" using Cons.prems(1) by simp
  show ?case
  proof (cases i)
    case 0
    then show ?thesis using Cons.prems(3) lx by (simp add: nth_append)
  next
    case (Suc k)
    then have "concat xs ! (k * n + j) = xs ! k ! j"
      using Cons.prems by (intro Cons.IH) simp_all
    then show ?thesis using Suc lx by (simp add: nth_append)
  qed
qed

lemma linear_row_shape:
  assumes "Linear_inv n_in n_out l" "0 < n_out" "length v = n_in"
  shows "\<exists>y. linear_row l v = Inr y \<and> length y = n_out"
proof -
  from assms(1) have W: "is_mat n_out n_in (lin_W l)" by (simp add: Linear_inv_def)
  have "ncols (lin_W l) = n_in" using ncols_is_mat [OF W assms(2)] .
  moreover have "length (lin_W l) = n_out" using W by (rule is_mat_length)
  ultimately show ?thesis using assms(3) by (simp add: linear_row_def)
qed

lemma mult_index_less: "i < (b::nat) \<Longrightarrow> j < l \<Longrightarrow> i * l + j < b * l"
proof -
  assume a: "i < b" "j < l"
  then have "i * l + j < i * l + l" by simp
  also have "\<dots> = Suc i * l" by simp
  also have "\<dots> \<le> b * l" using a(1) by (intro mult_le_mono1) simp
  finally show ?thesis .
qed

lemma seq_linear_shape:
  assumes lin: "Linear_inv u u l" and u: "0 < u" and len: "0 < n"
    and x: "is_tensor3 b u n x"
  shows "\<exists>p. seq_linear l x = Inr p \<and> is_tensor3 b u n p"
proof -
  let ?rows = "concat (map transpose_mat x)"
  have tx: "is_mat n u m'" if "m' \<in> set (map transpose_mat x)" for m'
  proof -
    from that obtain m where "m \<in> set x" "m' = transpose_mat m" by auto
    moreover from this x have "is_mat u n m" by (auto simp: is_tensor3_def list_all_iff)
    ultimately show ?thesis using transpose_mat_shape u by blast
  qed
  have lrows: "length ?rows = b * n"
    using length_concat_uniform [of "map transpose_mat x" n] tx x
    by (auto simp: is_tensor3_def dest: is_mat_length)
  have rrows: "length r = u" if "r \<in> set ?rows" for r
    using that tx by (auto dest: is_mat_rows)
  have "\<exists>y. linear_row l r = Inr y \<and> length y = u" if "r \<in> set ?rows" for r
    using linear_row_shape [OF lin u rrows [OF that]] .
  from rmap_total [of ?rows "linear_row l" "\<lambda>y. length y = u", OF this] obtain h where
    h: "L_linear l ?rows = Inr h" "length h = b * n" "list_all (\<lambda>y. length y = u) h"
    unfolding L_linear_def lrows by blast
  have hu: "length (h ! k) = u" if "k < b * n" for k
    using h(2,3) that by (simp add: list_all_length)
  have check: "\<not> (h \<noteq> [] \<and> ncols h \<noteq> ncols x)"
  proof (cases "b = 0")
    case True
    then show ?thesis using h(2) by simp
  next
    case False
    then obtain m xs where xc: "x = m # xs" using x by (cases x) (auto simp: is_tensor3_def)
    then have "is_mat u n m" using x by (simp add: is_tensor3_def)
    then have "ncols x = u" by (simp add: xc ncols_def is_mat_def)
    moreover have "ncols h = u"
      using hu [of 0] h(2) False len by (cases h) (auto simp: ncols_def)
    ultimately show ?thesis by simp
  qed
  have d3: "b \<noteq> 0 \<Longrightarrow> dim3 x = n"
  proof -
    assume "b \<noteq> 0"
    then obtain m xs where xc: "x = m # xs" using x by (cases x) (auto simp: is_tensor3_def)
    then have "is_mat u n m" using x by (simp add: is_tensor3_def)
    then show ?thesis using ncols_is_mat u by (simp add: xc dim3_def)
  qed
  have lx: "length x = b" using x by (simp add: is_tensor3_def)
  show ?thesis
  proof (cases "b = 0")
    case True
    then have "x = []" using lx by simp
    then show ?thesis using True
      by (simp add: seq_linear_def Let_def L_linear_def reshape2_def is_tensor3_def)
  next
    case False
    have r: "is_mat n u (reshape2 b n h ! i)" if "i < b" for i
      using that hu mult_index_less [OF that] by (simp add: reshape2_def is_mat_iff)
    have "is_mat u n (map transpose_mat (reshape2 b n h) ! i)" if "i < b" for i
    proof -
      have "map transpose_mat (reshape2 b n h) ! i = transpose_mat (reshape2 b n h ! i)"
        using that by (simp add: reshape2_def)
      then show ?thesis using transpose_mat_shape [OF r [OF that] len] by simp
    qed
    then have "is_tensor3 b u n (map transpose_mat (reshape2 b n h))"
      by (simp add: is_tensor3_iff reshape2_def)
    then show ?thesis
      using check h(1) d3 [OF False] lx by (simp add: seq_linear_def Let_def)
  qed
qed


lemma F_where_shape:
  assumes "is_mat r c cnd" "is_mat r c x" "is_mat r c y"
  shows "\<exists>w. F_where cnd x y = Inr w \<and> is_mat r c w"
proof -
  have "map length cnd = map length x" "map length x = map length y"
    using assms by (simp_all add: shape_of_mat)
  moreover have
    "is_mat r c (map2 (\<lambda>cr (xr, yr). map2 (\<lambda>cv (xv, yv). if cv then xv else yv) cr (zip xr yr)) cnd (zip x y))"
    using assms by (simp add: is_mat_iff)
  ultimately show ?thesis by (simp add: F_where_def)
qed

lemma softmax_row_shape: "xs \<noteq> [] \<Longrightarrow> \<exists>ys. softmax_row xs = Inr ys \<and> length ys = length xs"
  by (cases xs) (simp_all add: softmax_row_def Let_def)

lemma F_softmax_shape:
  assumes "is_mat r c x" "0 < c"
  shows "\<exists>a. F_softmax x = Inr a \<and> is_mat r c a"
proof -
  have "\<exists>ys. softmax_row xs = Inr ys \<and> length ys = c" if "xs \<in> set x" for xs
  proof -
    have "length xs = c" using assms(1) that by (rule is_mat_rows)
    then show ?thesis using softmax_row_shape [of xs] assms(2) by auto
  qed
  from rmap_total [of x softmax_row "\<lambda>ys. length ys = c", OF this] assms(1)
  show ?thesis by (auto simp: F_softmax_def is_mat_def)
qed

lemma matmul_transa_shape:
  assumes "is_mat u l q" "is_mat u lx k" "0 < u"
  shows "\<exists>a. matmul_transa q k = Inr a \<and> is_mat l lx a"
proof -
  have "ncols q = l" "ncols k = lx" "length q = u" "length k = u"
    using assms ncols_is_mat by (auto dest: is_mat_length)
  then show ?thesis by (simp add: matmul_transa_def is_mat_iff)
qed

lemma broadcast_mul_shape:
  assumes "is_mat l lx a" "is_tensor3 u l lx v"
  shows "\<exists>p. broadcast_mul a v = Inr p \<and> is_tensor3 u l lx p"
proof -
  have vu: "is_mat l lx vu" if "vu \<in> set v" for vu
    using assms(2) that by (simp add: is_tensor3_def list_all_iff)
  have "list_all (\<lambda>vu. map length vu = map length a) v"
    using vu assms(1) by (simp add: list_all_iff shape_of_mat)
  moreover have "is_tensor3 u l lx (map (\<lambda>vu. map2 (map2 (*)) a vu) v)"
    using assms by (simp add: is_tensor3_iff is_mat_iff)
  ultimately show ?thesis by (simp add: broadcast_mul_def)
qed

lemma attend_example_shape:
  assumes q: "is_mat u l q" and k: "is_mat u lx k" and v: "is_tensor3 u l lx v"
    and m: "is_mat l lx m" and u: "0 < u" and lx: "0 < lx"
  shows "\<exists>c. attend_example q k v m = Inr c \<and> is_mat u l c"
proof -
  from matmul_transa_shape [OF q k u] obtain pre_a where
    1: "matmul_transa q k = Inr pre_a" "is_mat l lx pre_a" by blast
  have "is_mat l lx (map (map (\<lambda>_. NInf)) pre_a)" using 1(2) by (simp add: is_mat_iff)
  from F_where_shape [OF m 1(2) this] obtain w where
    2: "F_where m pre_a (map (map (\<lambda>_. NInf)) pre_a) = Inr w" "is_mat l lx w" by blast
  from F_softmax_shape [OF 2(2) lx] obtain a where
    3: "F_softmax w = Inr a" "is_mat l lx a" by blast
  have "is_mat l lx (map (map isnan) a)" "is_mat l lx (map (map (\<lambda>_. 0::fl)) a)"
    using 3(2) by (simp_all add: is_mat_iff)
  from F_where_shape [OF this 3(2)] obtain a' where
    4: "F_where (map (map isnan) a) (map (map (\<lambda>_. 0)) a) a = Inr a'" "is_mat l lx a'" by blast
  from broadcast_mul_shape [OF 4(2) v] obtain pc where
    5: "broadcast_mul a' v = Inr pc" "is_tensor3 u l lx pc" by blast
  have "is_mat u l (map (map sum_list) pc)" using 5(2) by (simp add: is_tensor3_iff is_mat_iff)
  then show ?thesis
    by (simp add: attend_example_def Let_def 1(1) 2(1) 3(1) 4(1) 5(1))
qed

lemma is_tensor4_iff:
  "is_tensor4 b u l s x \<longleftrightarrow> length x = b \<and> (\<forall>i<b. is_tensor3 u l s (x ! i))"
  by (auto simp: is_tensor4_def list_all_length)

lemma attend_shape:
  assumes q: "is_tensor3 b u l q" and k: "is_tensor3 b u lx k" and v: "is_tensor4 b u l lx v"
    and m: "is_tensor3 b l lx m" and u: "0 < u" and lx: "0 < lx"
  shows "\<exists>c. attend q k v m = Inr c \<and> is_tensor3 b u l c"
proof -
  have len: "length q = b" "length k = b" "length v = b" "length m = b"
    using q k v m by (simp_all add: is_tensor3_def is_tensor4_def)
  have "\<exists>c. attend_example (q ! i) (k ! i) (v ! i) (m ! i) = Inr c \<and> is_mat u l c"
    if "i \<in> set [0..<length q]" for i
  proof -
    from that have i: "i < b" using len by simp
    have "is_mat u l (q ! i)" "is_mat u lx (k ! i)" "is_tensor3 u l lx (v ! i)" "is_mat l lx (m ! i)"
      using q k v m i by (simp_all add: is_tensor3_iff [of b] is_tensor4_iff)
    then show ?thesis using u lx by (rule attend_example_shape)
  qed
  from rmap_total [of "[0..<length q]" "\<lambda>i. attend_example (q ! i) (k ! i) (v ! i) (m ! i)"
      "is_mat u l", OF this]
  show ?thesis using len by (auto simp: attend_def is_tensor3_def)
qed

lemma att_scale_of_shape: "is_tensor3 b l lx m \<Longrightarrow> is_mat b l (att_scale_of m)"
  by (simp add: att_scale_of_def is_tensor3_iff is_mat_iff)

lemma mul_att_scale_shape:
  assumes "is_tensor3 b u l c" "is_mat b l att"
  shows "\<exists>r. mul_att_scale c att = Inr r \<and> is_tensor3 b u l r"
proof -
  have "list_all (\<lambda>i. list_all (\<lambda>row. length row = length (att ! i)) (c ! i)) [0..<length c]"
    using assms by (auto simp: list_all_iff is_tensor3_iff is_mat_iff in_set_conv_nth)
  moreover have "length c = length att" using assms by (simp add: is_tensor3_def is_mat_def)
  moreover have "is_tensor3 b u l (imap (\<lambda>i. map (\<lambda>row. map2 (*) row (att ! i))) c)"
    using assms by (simp add: is_tensor3_iff is_mat_iff)
  ultimately show ?thesis by (simp add: mul_att_scale_def)
qed

lemma F_dropout_keeps:
  "F_dropout train ratio keep x = Inr y \<Longrightarrow> is_tensor3 b u l x \<Longrightarrow> is_tensor3 b u l y"
  by (auto simp: F_dropout_def is_tensor3_iff is_mat_iff split: if_splits)

lemma F_dropout_returns: "F_dropout train ratio keep x = Inr y \<Longrightarrow> train \<longrightarrow> ratio \<noteq> 1"
  by (auto simp: F_dropout_def split: if_splits)

lemma conv_example_fits:
  assumes W: "is_tensor3 (2 * units) units width (conv_W cv)" and u: "0 < units"
    and x: "is_mat units len x" and ok: "conv_example cv x = Inr h"
  shows "width \<le> len + 2 * conv_pad cv"
proof (rule ccontr)
  assume "\<not> width \<le> len + 2 * conv_pad cv"
  moreover have "kernel_width (conv_W cv) = width"
    using kernel_width_is_tensor3 [OF W] u by simp
  moreover have "ncols x = len" using ncols_is_mat [OF x u] .
  ultimately show False using ok by (simp add: conv_example_def Let_def split: if_splits)
qed

lemma ConvGLU_call_fits:
  assumes ok: "ConvGLU_call train keep g x = Inr h"
    and inv: "ConvGLU_inv units width nopad g"
    and x: "is_tensor3 batch units len x" and pos: "0 < batch" "0 < units"
  shows "width \<le> len + 2 * (width div 2 * (1 - of_bool nopad))"
    and "train \<longrightarrow> glu_dropout g \<noteq> 1"
proof -
  from ok obtain x' where x': "F_dropout train (glu_dropout g) keep x = Inr x'"
    and r: "rmap (ConvGLU_example g) x' = Inr h"
    by (auto simp: ConvGLU_call_def rbind_eq_Inr)
  show "train \<longrightarrow> glu_dropout g \<noteq> 1" using x' by (rule F_dropout_returns)
  have xs: "is_tensor3 batch units len x'" using x' x by (rule F_dropout_keeps)
  then have 0: "0 < length x'" "is_mat units len (x' ! 0)"
    using pos(1) by (simp_all add: is_tensor3_iff)
  from r 0(1) have "ConvGLU_example g (x' ! 0) = Inr (h ! 0)"
    unfolding rmap_eq_Inr by simp
  then obtain hh where "conv_example (glu_conv g) (x' ! 0) = Inr hh"
    by (auto simp: ConvGLU_example_def rbind_eq_Inr)
  from conv_example_fits [OF _ pos(2) 0(2) this, of width] inv
  show "width \<le> len + 2 * (width div 2 * (1 - of_bool nopad))"
    by (simp add: ConvGLU_inv_def)
qed

lemma decoder_query_shape:
  assumes "Linear_inv u u lin" "0 < u" "0 < l" "is_tensor3 b u l base_x" "is_tensor3 b u l x"
  shows "decoder_query lin base_x x = Inr x"
proof -
  from seq_linear_shape [OF assms(1-3,5)] obtain p where
    p: "seq_linear lin x = Inr p" "is_tensor3 b u l p" by blast
  from F_add_shape [OF assms(4) p(2)] obtain q where "F_add base_x p = Inr q" by blast
  then show ?thesis by (simp add: decoder_query_def p(1))
qed

lemma decoder_layer_shape:
  assumes cv: "ConvGLU_inv u k True cv" and k: "k = 3 \<or> k = l + 2" and lin: "Linear_inv u u lin"
    and x: "is_tensor3 b u l x" and bx: "is_tensor3 b u l base_x"
    and z: "is_tensor3 b u lx z" and ze: "is_tensor4 b u l lx ze"
    and m: "is_tensor3 b l lx msk" and att: "is_mat b l att"
    and pos: "0 < u" "0 < l" "0 < lx"
    and dr: "train \<longrightarrow> glu_dropout cv \<noteq> 1"
  shows "\<exists>y. decoder_layer train keep cv lin base_x z ze msk att x = Inr y \<and> is_tensor3 b u l y"
proof -
  have fits: "k \<le> (l + 2) + 2 * (k div 2 * (1 - of_bool True))" using pos(2) k by auto
  have e: "l + 2 + 2 * (k div 2 * (1 - of_bool True)) + 1 - k = l + 3 - k" by simp
  from ConvGLU_call_shape [OF cv pos(1) pad_left_shape [OF x] fits dr, of keep] obtain h where
    h: "ConvGLU_call train keep cv (pad_left x) = Inr h" "is_tensor3 b u (l + 3 - k) h"
    unfolding e by blast
  have "l = l + 3 - k \<or> l = 1 \<or> l + 3 - k = 1" using k by auto
  from F_add_broadcasts [OF x h(2) this] obtain x1 where
    x1: "F_add x h = Inr x1" "is_tensor3 b u (if l = 1 then l + 3 - k else l) x1" by blast
  have "(if l = 1 then l + 3 - k else l) = l" using k by auto
  with x1(2) have x1s: "is_tensor3 b u l x1" by simp
  let ?x2 = "mul_const x1 res_scale"
  have x2: "is_tensor3 b u l ?x2" using x1s by (rule mul_const_shape)
  have q: "decoder_query lin base_x ?x2 = Inr ?x2"
    using lin pos(1,2) bx x2 by (rule decoder_query_shape)
  from attend_shape [OF x2 z ze m pos(1,3)] obtain c where
    c: "attend ?x2 z ze msk = Inr c" "is_tensor3 b u l c" by blast
  from mul_att_scale_shape [OF c(2) att] obtain c' where
    c': "mul_att_scale c att = Inr c'" "is_tensor3 b u l c'" by blast
  from F_add_shape [OF x2 c'(2)] obtain y where
    y: "F_add ?x2 c' = Inr y" "is_tensor3 b u l y" by blast
  show ?thesis
    by (simp add: decoder_layer_def Let_def h(1) x1(1) q c(1) c'(1) y)
qed

lemma attend_needs_mask_rows:
  assumes ok: "attend q k v m = Inr c" and q: "is_tensor3 b u l q" and pos: "0 < b" "0 < u"
  shows "length (m ! 0) = l"
proof -
  have q0: "0 < length q" "is_mat u l (q ! 0)" using q pos(1) by (simp_all add: is_tensor3_iff)
  from ok have "rmap (\<lambda>i. attend_example (q ! i) (k ! i) (v ! i) (m ! i)) [0..<length q] = Inr c"
    by (auto simp: attend_def split: if_splits)
  with q0(1) have "attend_example (q ! 0) (k ! 0) (v ! 0) (m ! 0) = Inr (c ! 0)"
    unfolding rmap_eq_Inr by auto
  then obtain pre_a w where 1: "matmul_transa (q ! 0) (k ! 0) = Inr pre_a"
    and 2: "F_where (m ! 0) pre_a (map (map (\<lambda>_. NInf)) pre_a) = Inr w"
    by (auto simp: attend_example_def Let_def rbind_eq_Inr)
  have "ncols (q ! 0) = l" using q0(2) pos(2) by (rule ncols_is_mat)
  with 1 have "length pre_a = l" by (auto simp: matmul_transa_def split: if_splits)
  moreover from 2 have "map length (m ! 0) = map length pre_a"
    by (auto simp: F_where_def split: if_splits)
  then have "length (m ! 0) = length pre_a" by (metis length_map)
  ultimately show ?thesis by simp
qed

text \<open>
  What a layer that returns tells: the sum of the state and of the convolution was
  possible, so the convolution gave as many positions as the state has, or one
  position that the sum repeats; and the attention accepted the query, so the sum
  has as many positions as the mask.
\<close>

lemma decoder_layer_returns:
  assumes ok: "decoder_layer train keep cv lin base_x z ze msk att x = Inr y"
    and cv: "ConvGLU_inv u k True cv"
    and x: "is_tensor3 b u l x"
    and z: "is_tensor3 b u lx z" and ze: "is_tensor4 b u l lx ze"
    and m: "is_tensor3 b l lx msk" and att: "is_mat b l att"
    and pos: "0 < b" "0 < u" "0 < l" "0 < lx"
  shows "(k = 3 \<or> k = l + 2) \<and> is_tensor3 b u l y"
proof -
  from ok obtain h x1 q c c' where
    1: "ConvGLU_call train keep cv (pad_left x) = Inr h"
    and 2: "F_add x h = Inr x1"
    and 3: "decoder_query lin base_x (mul_const x1 res_scale) = Inr q"
    and 4: "attend q z ze msk = Inr c"
    and 5: "mul_att_scale c att = Inr c'"
    and 6: "F_add (mul_const x1 res_scale) c' = Inr y"
    unfolding decoder_layer_def Let_def rbind_eq_Inr by auto
  let ?l2 = "if l = 1 then l + 3 - k else l"
  let ?x2 = "mul_const x1 res_scale"
  note px = pad_left_shape [OF x]
  from ConvGLU_call_fits [OF 1 cv px pos(1,2)]
  have fits: "k \<le> (l + 2) + 2 * (k div 2 * (1 - of_bool True))" and dr: "train \<longrightarrow> glu_dropout cv \<noteq> 1"
    by simp_all
  then have kl: "k \<le> l + 2" by simp
  have e: "l + 2 + 2 * (k div 2 * (1 - of_bool True)) + 1 - k = l + 3 - k" by simp
  from ConvGLU_call_shape [OF cv pos(2) px fits dr, of keep] 1
  have hs: "is_tensor3 b u (l + 3 - k) h" unfolding e by auto
  from F_add_returns [OF x hs pos(1,2) 2]
  have compat: "l = l + 3 - k \<or> l = 1 \<or> l + 3 - k = 1" and x1: "is_tensor3 b u ?l2 x1"
    by simp_all
  have x2: "is_tensor3 b u ?l2 ?x2" using x1 by (rule mul_const_shape)
  have q: "q = ?x2" using 3 by (rule decoder_query_is_state)
  from attend_needs_mask_rows [OF 4 [unfolded q] x2 pos(1,2)] m pos(1)
  have l2: "?l2 = l" by (simp add: is_tensor3_iff is_mat_iff)
  have k: "k = 3 \<or> k = l + 2" using compat l2 kl by (auto split: if_splits)
  have x2': "is_tensor3 b u l ?x2" using x2 l2 by simp
  from attend_shape [OF x2' z ze m pos(2,4)] 4 q have cs: "is_tensor3 b u l c" by auto
  from mul_att_scale_shape [OF cs att] 5 have c's: "is_tensor3 b u l c'" by auto
  from F_add_shape [OF x2' c's] 6 have "is_tensor3 b u l y" by auto
  with k show ?thesis by simp
qed

lemma ConvGLUDecoder_loop_returns:
  assumes "ConvGLUDecoder_loop train rng i ls base_x z ze msk att x = Inr y"
    and "list_all (\<lambda>(cv, lin). ConvGLU_inv u k True cv) ls"
    and "is_tensor3 b u l x"
    and "is_tensor3 b u lx z" and "is_tensor4 b u l lx ze"
    and "is_tensor3 b l lx msk" and "is_mat b l att"
    and "0 < b" "0 < u" "0 < l" "0 < lx"
  shows "is_tensor3 b u l y"
  using assms(1-3)
proof (induction ls arbitrary: i x)
  case Nil
  then show ?case by simp
next
  case (Cons p ls)
  obtain cv lin where p: "p = (cv, lin)" by (cases p)
  from Cons.prems(2) have cv: "ConvGLU_inv u k True cv"
    and rest: "list_all (\<lambda>(cv, lin). ConvGLU_inv u k True cv) ls"
    by (simp_all add: p)
  from Cons.prems(1) obtain x' where
    step: "decoder_layer train (rng (DecoderLayer i)) cv lin base_x z ze msk att x = Inr x'"
    and r: "ConvGLUDecoder_loop train rng (Suc i) ls base_x z ze msk att x' = Inr y"
    by (auto simp: p rbind_eq_Inr)
  from decoder_layer_returns [OF step cv Cons.prems(3) assms(4-11)]
  have "is_tensor3 b u l x'" by simp
  with r rest show ?case by (rule Cons.IH)
qed

lemma ConvGLUDecoder_loop_shape:
  assumes "list_all (\<lambda>(cv, lin). ConvGLU_inv u k True cv \<and> Linear_inv u u lin \<and>
             (train \<longrightarrow> glu_dropout cv \<noteq> 1)) ls"
    and "k = 3 \<or> k = l + 2"
    and "is_tensor3 b u l x" and "is_tensor3 b u l base_x"
    and "is_tensor3 b u lx z" and "is_tensor4 b u l lx ze"
    and "is_tensor3 b l lx msk" and "is_mat b l att"
    and "0 < u" "0 < l" "0 < lx"
  shows "\<exists>y. ConvGLUDecoder_loop train rng i ls base_x z ze msk att x = Inr y \<and> is_tensor3 b u l y"
  using assms(1,3)
proof (induction ls arbitrary: i x)
  case Nil
  then show ?case by simp
next
  case (Cons p ls)
  obtain cv lin where p: "p = (cv, lin)" by (cases p)
  from Cons.prems(1) have cv: "ConvGLU_inv u k True cv" and lin: "Linear_inv u u lin"
    and dr: "train \<longrightarrow> glu_dropout cv \<noteq> 1"
    and rest: "list_all (\<lambda>(cv, lin). ConvGLU_inv u k True cv \<and> Linear_inv u u lin \<and>
             (train \<longrightarrow> glu_dropout cv \<noteq> 1)) ls"
    by (simp_all add: p)
  from decoder_layer_shape [OF cv assms(2) lin Cons.prems(2) assms(4-11) dr, of "rng (DecoderLayer i)"]
  obtain x' where
    l: "decoder_layer train (rng (DecoderLayer i)) cv lin base_x z ze msk att x = Inr x'"
    and xs: "is_tensor3 b u l x'" by blast
  from Cons.IH [OF rest xs, of "Suc i"] show ?case by (simp add: p l)
qed

lemma ConvGLU_init_inv: "ConvGLU_inv units width nopad (ConvGLU_init units width dropout nopad draw)"
  by (simp add: ConvGLU_inv_def ConvGLU_init_def is_tensor3_iff is_mat_iff)

lemma Linear_init_inv: "Linear_inv n_in n_out (Linear_init n_in n_out draw)"
  by (simp add: Linear_inv_def Linear_init_def is_mat_iff)

lemma ConvGLUDecoder_init_inv:
  "ConvGLUDecoder_inv layers units width (ConvGLUDecoder_init layers units width dropout draw dp)"
  by (simp add: ConvGLUDecoder_inv_def ConvGLUDecoder_init_def list_all_iff
      ConvGLU_init_inv Linear_init_inv)

lemma ConvGLUEncoder_init_inv:
  "ConvGLUEncoder_inv layers units width (ConvGLUEncoder_init layers units width dropout draw)"
  by (simp add: ConvGLUEncoder_inv_def ConvGLUEncoder_init_def list_all_iff ConvGLU_init_inv)

lemma kernel_3_iff: "width div 2 + 1 = 3 \<longleftrightarrow> width = 4 \<or> width = (5::nat)"
  by presburger

lemma ConvGLUDecoder_call_shape:
  assumes inv: "ConvGLUDecoder_inv layers units width D"
    and x: "is_tensor3 batch units len x" and z: "is_tensor3 batch units x_len z"
    and ze: "is_tensor4 batch units len x_len ze" and m: "is_tensor3 batch len x_len msk"
    and pos: "0 < batch" "0 < units" "0 < len" "0 < x_len"
    and dr: "train \<longrightarrow> list_all (\<lambda>g. glu_dropout g \<noteq> 1) (dec_convs D)"
  shows "(0 < layers \<longrightarrow>
            ((\<exists>y. ConvGLUDecoder_call train rng D x z ze msk = Inr y) \<longleftrightarrow>
             width div 2 + 1 = 3 \<or> width div 2 + 1 = len + 2)) \<and>
         (layers = 0 \<longrightarrow> ConvGLUDecoder_call train rng D x z ze msk = Inr x) \<and>
         (\<forall>y. ConvGLUDecoder_call train rng D x z ze msk = Inr y \<longrightarrow> is_tensor3 batch units len y)"
proof (intro conjI impI allI)
  let ?ls = "zip (dec_convs D) (dec_preatts D)"
  let ?k = "width div 2 + 1"
  from inv have lc: "length (dec_convs D) = layers" and lp: "length (dec_preatts D) = layers"
    and cvs: "list_all (ConvGLU_inv units ?k True) (dec_convs D)"
    and lins: "list_all (Linear_inv units units) (dec_preatts D)"
    by (simp_all add: ConvGLUDecoder_inv_def)
  note att = att_scale_of_shape [OF m]
  show "ConvGLUDecoder_call train rng D x z ze msk = Inr x" if "layers = 0"
    using that lc by (simp add: ConvGLUDecoder_call_def Let_def)
  show "is_tensor3 batch units len y" if "ConvGLUDecoder_call train rng D x z ze msk = Inr y" for y
  proof -
    from that have "ConvGLUDecoder_loop train rng 0 ?ls x z ze msk (att_scale_of msk) x = Inr y"
      by (simp add: ConvGLUDecoder_call_def Let_def)
    moreover have "list_all (\<lambda>(cv, lin). ConvGLU_inv units ?k True cv) ?ls"
      using cvs by (auto simp: list_all_iff dest: set_zip_leftD)
    ultimately show ?thesis using x z ze m att pos by (rule ConvGLUDecoder_loop_returns)
  qed
  show "(\<exists>y. ConvGLUDecoder_call train rng D x z ze msk = Inr y) \<longleftrightarrow> ?k = 3 \<or> ?k = len + 2"
    if layers: "0 < layers"
  proof
    assume "\<exists>y. ConvGLUDecoder_call train rng D x z ze msk = Inr y"
    then obtain y where y: "ConvGLUDecoder_loop train rng 0 ?ls x z ze msk (att_scale_of msk) x = Inr y"
      by (auto simp: ConvGLUDecoder_call_def Let_def)
    from layers lc lp obtain cv cs lin ps where
      D: "dec_convs D = cv # cs" "dec_preatts D = lin # ps"
      by (cases "dec_convs D"; cases "dec_preatts D") auto
    from y obtain x' where
      step: "decoder_layer train (rng (DecoderLayer 0)) cv lin x z ze msk (att_scale_of msk) x = Inr x'"
      by (auto simp: D rbind_eq_Inr)
    have cv: "ConvGLU_inv units ?k True cv" using cvs by (simp add: D)
    from decoder_layer_returns [OF step cv x z ze m att pos]
    show "?k = 3 \<or> ?k = len + 2" by simp
  next
    assume k: "?k = 3 \<or> ?k = len + 2"
    have "list_all (\<lambda>(cv, lin). ConvGLU_inv units ?k True cv \<and> Linear_inv units units lin \<and>
             (train \<longrightarrow> glu_dropout cv \<noteq> 1)) ?ls"
      using cvs lins dr lc lp unfolding list_all_length by (cases train) auto
    from ConvGLUDecoder_loop_shape [OF this k x x z ze m att pos(2-4), of rng 0]
    show "\<exists>y. ConvGLUDecoder_call train rng D x z ze msk = Inr y"
      by (auto simp: ConvGLUDecoder_call_def Let_def)
  qed
qed

subsection \<open>The length of the decoder output\<close>

text \<open>
  C10. The decoder pads two positions on the left, whatever the width. Take a
  decoder made by \<^verbatim>\<open>ConvGLUDecoder(n_layers, n_units, width, dropout)\<close> and arrays of
  the shapes the forward path gives it, with at least one example, one unit, one
  target position and one source position. With at least one layer the call returns
  exactly when the kernel width \<open>width div 2 + 1\<close> is 3, that is when the width is 4
  or 5, or when it is the number of target positions plus 2: then the convolution
  gives a single position, which the sum with the state repeats along the positions.
  With no layer the call returns its input for every width. Whenever it returns, the
  output has the shape of the input. \<^verbatim>\<open>Seq2seq\<close> makes its decoder with width 5.
\<close>

theorem decoder_keeps_length:
  assumes "ConvGLUDecoder_inv layers units width D"
    and "is_tensor3 batch units len x" and "is_tensor3 batch units x_len z"
    and "is_tensor4 batch units len x_len ze" and "is_tensor3 batch len x_len msk"
    and "0 < batch" and "0 < units" and "0 < len" and "0 < x_len"
    and "train \<longrightarrow> list_all (\<lambda>g. glu_dropout g \<noteq> 1) (dec_convs D)"
  shows "(0 < layers \<longrightarrow>
            ((\<exists>y. ConvGLUDecoder_call train rng D x z ze msk = Inr y) \<longleftrightarrow>
             width div 2 + 1 = 3 \<or> width div 2 + 1 = len + 2)) \<and>
         (layers = 0 \<longrightarrow> ConvGLUDecoder_call train rng D x z ze msk = Inr x) \<and>
         (\<forall>y. ConvGLUDecoder_call train rng D x z ze msk = Inr y \<longrightarrow> is_tensor3 batch units len y) \<and>
         (width div 2 + 1 = 3 \<longleftrightarrow> width = 4 \<or> width = 5) \<and>
         ConvGLUDecoder_inv n u 5 (decoder (Seq2seq_init n sv tv u ml dro xpm d))"
  using ConvGLUDecoder_call_shape [OF assms, of rng] kernel_3_iff [of width]
    ConvGLUDecoder_init_inv [of n u 5 dro "draw_decoder d" "draw_preatt d"]
  by (simp add: Seq2seq_init_def)

theorem decoder_keeps_length_witness:
  "ConvGLUDecoder_inv 1 2 5 (decoder ex_model2) \<and>
   is_tensor3 1 2 2 [[[Fin 1, Fin 2], [Fin 3, Fin 4]]] \<and>
   ConvGLUDecoder_call False no_drop (decoder ex_model2) [[[Fin 1, Fin 2], [Fin 3, Fin 4]]]
     [[[Fin 0, Fin 0], [Fin 0, Fin 0]]]
     [[[[Fin 0, Fin 0], [Fin 0, Fin 0]], [[Fin 0, Fin 0], [Fin 0, Fin 0]]]]
     [[[True, True], [True, True]]] =
     Inr [[[Fin res_scale, Fin (2 * res_scale)], [Fin (3 * res_scale), Fin (4 * res_scale)]]] \<and>
   is_tensor3 1 2 2 [[[Fin res_scale, Fin (2 * res_scale)], [Fin (3 * res_scale), Fin (4 * res_scale)]]] \<and>
   (5::nat) div 2 + 1 = 3"
proof -
  let ?x = "[[[Fin 1, Fin 2], [Fin 3, Fin 4]]]"
  let ?z = "[[[Fin 0, Fin 0], [Fin 0, Fin 0]]]"
  let ?ze = "[[[[Fin 0, Fin 0], [Fin 0, Fin 0]], [[Fin 0, Fin 0], [Fin 0, Fin 0]]]]"
  let ?m = "[[[True, True], [True, True]]]"
  have inv: "ConvGLUDecoder_inv 1 2 5 (decoder ex_model2)"
    by (simp add: ex_model2_def ConvGLUDecoder_init_inv)
  have x: "is_tensor3 1 2 2 ?x" and z: "is_tensor3 1 2 2 ?z" and ze: "is_tensor4 1 2 2 2 ?ze"
    and m: "is_tensor3 1 2 2 ?m"
    by (simp_all add: is_tensor4_def is_tensor3_def is_mat_def)
  have call: "ConvGLUDecoder_call False no_drop (decoder ex_model2) ?x ?z ?ze ?m =
      Inr [[[Fin res_scale, Fin (2 * res_scale)], [Fin (3 * res_scale), Fin (4 * res_scale)]]]"
    by (simp add: fl_arith array_defs chainer_defs net_defs ex2_defs Let_def eval_more)
  from decoder_keeps_length [OF inv x z ze m, of False no_drop] inv x call
  show ?thesis by simp
qed

text \<open>
  The claim as it is written has no condition on the number of layers. A decoder
  without layers, made with width 7, keeps the length of its input although its
  kernel width would be 4.
\<close>

theorem decoder_without_layers_keeps_length:
  "ConvGLUDecoder_call False no_drop (ConvGLUDecoder_init 0 2 7 (1 / 5) (\<lambda>_ _ _ _. 0) (\<lambda>_ _ _. 0))
     [[[Fin 1, Fin 2], [Fin 3, Fin 4]]] [[[Fin 0, Fin 0], [Fin 0, Fin 0]]]
     [[[[Fin 0, Fin 0], [Fin 0, Fin 0]], [[Fin 0, Fin 0], [Fin 0, Fin 0]]]]
     [[[True, True], [True, True]]] = Inr [[[Fin 1, Fin 2], [Fin 3, Fin 4]]] \<and>
   (7::nat) div 2 + 1 \<noteq> 3"
  by (simp add: ConvGLUDecoder_call_def ConvGLUDecoder_init_def Let_def)

text \<open>
  With one layer and width 7 the kernel has width 4. On two target positions the
  padded state has four, the convolution gives one position, and the sum repeats it:
  the call returns an array of the shape of its input. Here the kernel is 1 on the
  two output channels and 0 on the two gate channels, so the convolution gives
  \<open>10 * sigmoid 0 = 5\<close>, which is added to every position. On three target positions
  the convolution gives two, and the sum is refused.
\<close>

lemma decoder_width_7_on_two_positions:
  "ConvGLUDecoder_call False no_drop
     (ConvGLUDecoder_init 1 2 7 (1 / 5) (\<lambda>_ oc _ _. if oc < 2 then 1 else 0) (\<lambda>_ _ _. 0))
     [[[Fin 1, Fin 2], [Fin 3, Fin 4]]] [[[Fin 0, Fin 0], [Fin 0, Fin 0]]]
     [[[[Fin 0, Fin 0], [Fin 0, Fin 0]], [[Fin 0, Fin 0], [Fin 0, Fin 0]]]]
     [[[True, True], [True, True]]] =
     Inr [[[Fin (6 * res_scale), Fin (7 * res_scale)], [Fin (8 * res_scale), Fin (9 * res_scale)]]]"
  by (simp add: fl_arith array_defs chainer_defs net_defs ex2_defs Let_def eval_more)

lemma decoder_width_7_on_three_positions:
  "ConvGLUDecoder_call False no_drop (ConvGLUDecoder_init 1 2 7 (1 / 5) (\<lambda>_ _ _ _. 0) (\<lambda>_ _ _. 0))
     [[[Fin 1, Fin 2, Fin 3], [Fin 4, Fin 5, Fin 6]]] [[[Fin 0, Fin 0], [Fin 0, Fin 0]]]
     [[[[Fin 0, Fin 0], [Fin 0, Fin 0], [Fin 0, Fin 0]], [[Fin 0, Fin 0], [Fin 0, Fin 0], [Fin 0, Fin 0]]]]
     [[[True, True], [True, True], [True, True]]] = Inl ShapeMismatch"
  by (simp add: fl_arith array_defs chainer_defs net_defs ex2_defs Let_def eval_more)

subsection \<open>A position reads earlier positions only\<close>

text \<open>
  The decoder pads two zero columns on the left and convolves with a kernel of
  width 3 without further padding, so output column \<open>t\<close> of a layer is computed from
  the input columns \<open>t - 2, ..., t\<close>; the attention works on every position by itself.
  Hence the stack commutes with cutting all arrays to their first \<open>n\<close> positions:
  what \<^verbatim>\<open>ConvGLUDecoder\<close> returns for the positions below \<open>n\<close> is a function of the
  columns below \<open>n\<close> of its input. Dropout is off.
\<close>

lemma rmap_take: "rmap f xs = Inr ys \<Longrightarrow> rmap f (take n xs) = Inr (take n ys)"
  unfolding rmap_eq_Inr by simp

lemma take_map2: "take n (map2 f xs ys) = map2 f (take n xs) (take n ys)"
  by (simp add: take_map take_zip)

lemma broadcast2_map:
  assumes ok: "broadcast2 f xs ys = Inr s"
    and step: "\<And>x y r. f x y = Inr r \<Longrightarrow> f (F x) (F y) = Inr (F r)"
  shows "broadcast2 f (map F xs) (map F ys) = Inr (map F s)"
proof (cases "length xs = length ys")
  case True
  from broadcast2_axis_inv [OF refl True [symmetric] ok] show ?thesis
    using True by (simp add: broadcast2_def rmap_eq_Inr step)
next
  case False
  consider "length xs = 1" | "length xs \<noteq> 1" "length ys = 1"
    using ok False by (auto simp: broadcast2_def split: if_splits)
  then show ?thesis
  proof cases
    case 1
    then obtain a where a: "xs = [a]" by (cases xs) auto
    from ok False have "rmap (f a) ys = Inr s" by (simp add: broadcast2_def a)
    then show ?thesis using False by (simp add: broadcast2_def a rmap_eq_Inr step)
  next
    case 2
    then obtain a where a: "ys = [a]" by (cases ys) auto
    from ok False 2 have "rmap (\<lambda>x. f x a) xs = Inr s" by (simp add: broadcast2_def a)
    then show ?thesis using False 2 by (simp add: broadcast2_def a rmap_eq_Inr step)
  qed
qed

lemma add_rows_prefix:
  assumes "broadcast2 (\<lambda>a b. Inr (a + b)) r r' = Inr (s::fl list)"
  shows "broadcast2 (\<lambda>a b. Inr (a + b)) (take n r) (take n r') = Inr (take n s)"
proof (cases "length r = length r'")
  case True
  with assms show ?thesis by (auto simp: broadcast2_rows take_map2)
next
  case False
  consider "length r = 1" | "length r \<noteq> 1" "length r' = 1"
    using assms False by (auto simp: broadcast2_rows split: if_splits)
  then show ?thesis
  proof cases
    case 1
    then obtain a where a: "r = [a]" by (cases r) auto
    from assms False have s: "s = map (\<lambda>b. a + b) r'" by (simp add: broadcast2_rows a)
    show ?thesis
    proof (cases n)
      case 0
      then show ?thesis by (simp add: broadcast2_rows)
    next
      case (Suc k)
      show ?thesis
      proof (cases r')
        case Nil
        then show ?thesis by (simp add: broadcast2_rows a s Suc)
      next
        case (Cons b bs)
        then show ?thesis using False by (cases k) (simp_all add: broadcast2_rows a s Suc take_map)
      qed
    qed
  next
    case 2
    then obtain a where a: "r' = [a]" by (cases r') auto
    from assms False 2 have s: "s = map (\<lambda>b. b + a) r" by (simp add: broadcast2_rows a)
    show ?thesis
    proof (cases n)
      case 0
      then show ?thesis by (simp add: broadcast2_rows)
    next
      case (Suc k)
      show ?thesis
      proof (cases r)
        case Nil
        then show ?thesis by (simp add: broadcast2_rows a s Suc)
      next
        case (Cons b bs)
        then show ?thesis using False by (cases k) (simp_all add: broadcast2_rows a s Suc take_map)
      qed
    qed
  qed
qed

lemma F_add_prefix:
  assumes "F_add x h = Inr s"
  shows "F_add (map (map (take n)) x) (map (map (take n)) h) = Inr (map (map (take n)) s)"
  unfolding F_add_def
  using assms [unfolded F_add_def]
  by (rule broadcast2_map) (rule broadcast2_map, assumption, rule add_rows_prefix)

lemma mul_const_prefix: "mul_const (map (map (take n)) x) c = map (map (take n)) (mul_const x c)"
  by (simp add: mul_const_def take_map comp_def)

lemma pad_left_prefix: "pad_left (map (map (take n)) x) = map (map (take (n + 2))) (pad_left x)"
  by (simp add: pad_left_def comp_def numeral_2_eq_2)


lemma pad_row_0: "pad_row 0 r = r"
  by (simp add: pad_row_def)

lemma conv_example_prefix:
  assumes W: "is_tensor3 (2 * units) units k (conv_W cv)"
    and b: "length (conv_b cv) = 2 * units"
    and p: "conv_pad cv = 0" and u: "0 < units"
    and x: "is_mat units l x" and mk: "k \<le> m" "m \<le> l"
    and ok: "conv_example cv x = Inr h"
  shows "conv_example cv (map (take m) x) = Inr (map (take (m + 1 - k)) h)"
proof -
  let ?W = "conv_W cv"
  let ?G = "\<lambda>x oc t. (\<Sum>c\<leftarrow>[0..<units]. \<Sum>j\<leftarrow>[0..<k]. ?W ! oc ! c ! j * x ! c ! (t + j)) + conv_b cv ! oc"
  have kw: "kernel_width ?W = k" using kernel_width_is_tensor3 [OF W] u by simp
  have nc: "ncols ?W = units"
    using W u by (cases ?W) (auto simp: is_tensor3_def ncols_def is_mat_def)
  have lw: "length ?W = 2 * units" using W by (simp add: is_tensor3_def)
  have lx: "length x = units" "ncols x = l" using x ncols_is_mat [OF x u] by (simp_all add: is_mat_def)
  have xm: "is_mat units m (map (take m) x)" using x mk(2) by (simp add: is_mat_iff)
  have lxm: "ncols (map (take m) x) = m" using ncols_is_mat [OF xm u] .
  have h: "h = map (\<lambda>oc. map (?G x oc) [0..<l + 1 - k]) [0..<2 * units]"
    using ok x mk by (simp add: conv_example_def Let_def kw nc lx lw b p pad_row_0 split: if_splits)
  have hm: "conv_example cv (map (take m) x) =
      Inr (map (\<lambda>oc. map (?G (map (take m) x) oc) [0..<m + 1 - k]) [0..<2 * units])"
    using xm mk by (simp add: conv_example_def Let_def kw nc lx lxm lw b p pad_row_0)
  have "map (take (m + 1 - k)) h = map (\<lambda>oc. map (?G x oc) [0..<m + 1 - k]) [0..<2 * units]"
    using mk by (simp add: h take_map comp_def min_def)
  also have "\<dots> = map (\<lambda>oc. map (?G (map (take m) x) oc) [0..<m + 1 - k]) [0..<2 * units]"
  proof (rule map_cong [OF refl], rule map_cong [OF refl])
    fix oc t assume "t \<in> set [0..<m + 1 - k]"
    then have t: "t + k \<le> m" using mk by simp
    have "(\<Sum>j\<leftarrow>[0..<k]. ?W ! oc ! c ! j * x ! c ! (t + j)) =
          (\<Sum>j\<leftarrow>[0..<k]. ?W ! oc ! c ! j * map (take m) x ! c ! (t + j))"
      if "c \<in> set [0..<units]" for c
    proof (rule arg_cong [where f = sum_list], rule map_cong [OF refl])
      fix j assume "j \<in> set [0..<k]"
      then have "t + j < m" using t by simp
      then show "?W ! oc ! c ! j * x ! c ! (t + j) = ?W ! oc ! c ! j * map (take m) x ! c ! (t + j)"
        using that lx by simp
    qed
    then have "map (\<lambda>c. \<Sum>j\<leftarrow>[0..<k]. ?W ! oc ! c ! j * x ! c ! (t + j)) [0..<units] =
          map (\<lambda>c. \<Sum>j\<leftarrow>[0..<k]. ?W ! oc ! c ! j * map (take m) x ! c ! (t + j)) [0..<units]"
      by (intro map_cong [OF refl])
    then show "?G x oc t = ?G (map (take m) x) oc t" by (simp only:)
  qed
  finally show ?thesis unfolding hm by simp
qed

lemma F_split_axis_map:
  "F_split_axis h = Inr (a, g) \<Longrightarrow> F_split_axis (map f h) = Inr (map f a, map f g)"
  by (auto simp: F_split_axis_def take_map drop_map split: if_splits)

lemma glu_prefix:
  "map2 (map2 (*)) (map (take n) out) (map (map f) (map (take n) g)) =
   map (take n) (map2 (map2 (*)) out (map (map f) g))"
proof (induction out arbitrary: g)
  case Nil
  show ?case by simp
next
  case (Cons a out)
  show ?case
  proof (cases g)
    case Nil
    then show ?thesis by simp
  next
    case (Cons r g')
    have "map2 (*) (take n a) (map f (take n r)) = take n (map2 (*) a (map f r))"
      by (simp add: take_map take_zip)
    then show ?thesis using Cons.IH [of g'] Cons by simp
  qed
qed

lemma ConvGLU_example_prefix:
  assumes inv: "ConvGLU_inv units k True g" and u: "0 < units"
    and x: "is_mat units l x" and mk: "k \<le> m" "m \<le> l"
    and ok: "ConvGLU_example g x = Inr y"
  shows "ConvGLU_example g (map (take m) x) = Inr (map (take (m + 1 - k)) y)"
proof -
  from inv have W: "is_tensor3 (2 * units) units k (conv_W (glu_conv g))"
    and b: "length (conv_b (glu_conv g)) = 2 * units" and p: "conv_pad (glu_conv g) = 0"
    by (simp_all add: ConvGLU_inv_def)
  from ok obtain h out pregate where h: "conv_example (glu_conv g) x = Inr h"
    and sp: "F_split_axis h = Inr (out, pregate)"
    and sh: "map length out = map length pregate"
    and y: "y = map2 (map2 (*)) out (map (map fl_sigmoid) pregate)"
    by (auto simp: ConvGLU_example_def rbind_eq_Inr split: if_splits)
  let ?n = "m + 1 - k"
  note hp = conv_example_prefix [OF W b p u x mk h]
  note spp = F_split_axis_map [OF sp, of "take ?n"]
  have e1: "map length (map (take ?n) out) = map length (map (take ?n) pregate)"
  proof -
    have "map length (map (take ?n) r) = map (\<lambda>l. min l ?n) (map length r)" for r :: mat
      by (simp add: comp_def)
    then show ?thesis by (simp only: sh)
  qed
  have e2: "map2 (map2 (*)) (map (take ?n) out) (map (map fl_sigmoid) (map (take ?n) pregate)) =
      map (take ?n) y"
    unfolding y by (rule glu_prefix)
  show ?thesis
    unfolding ConvGLU_example_def hp rbind_Inr spp prod.case e2 e1
    by (simp only: refl if_True)
qed


lemma matmul_transa_prefix:
  assumes q: "is_mat u l q" and u: "0 < u" and n: "n \<le> l"
    and ok: "matmul_transa q k = Inr a"
  shows "matmul_transa (map (take n) q) k = Inr (take n a)"
proof -
  let ?row = "\<lambda>q i. map (\<lambda>j. \<Sum>c\<leftarrow>[0..<u]. q ! c ! i * k ! c ! j) [0..<ncols k]"
  have lq: "length q = u" "ncols q = l" using q ncols_is_mat [OF q u] by (simp_all add: is_mat_def)
  have qn: "is_mat u n (map (take n) q)" using q n by (simp add: is_mat_iff)
  have lqn: "ncols (map (take n) q) = n" using ncols_is_mat [OF qn u] .
  from ok have lk: "length k = u" and a: "a = map (?row q) [0..<l]"
    by (auto simp: matmul_transa_def lq split: if_splits)
  have "take n a = map (?row q) [0..<n]" using n by (simp add: a take_map min_def)
  also have "\<dots> = map (?row (map (take n) q)) [0..<n]"
  proof (rule map_cong [OF refl], rule map_cong [OF refl])
    fix i j assume "i \<in> set [0..<n]"
    then have i: "i < n" by simp
    have "map (\<lambda>c. q ! c ! i * k ! c ! j) [0..<u] = map (\<lambda>c. map (take n) q ! c ! i * k ! c ! j) [0..<u]"
      using i lq by (intro map_cong [OF refl]) simp
    then show "(\<Sum>c\<leftarrow>[0..<u]. q ! c ! i * k ! c ! j) = (\<Sum>c\<leftarrow>[0..<u]. map (take n) q ! c ! i * k ! c ! j)"
      by (simp only:)
  qed
  finally show ?thesis by (simp add: matmul_transa_def lq lk lqn)
qed

lemma F_where_prefix:
  assumes "F_where c x y = Inr w"
  shows "F_where (take n c) (take n x) (take n y) = Inr (take n w)"
proof -
  from assms have sh: "map length c = map length x" "map length x = map length y"
    and w: "w = map2 (\<lambda>cr (xr, yr). map2 (\<lambda>cv (xv, yv). if cv then xv else yv) cr (zip xr yr)) c (zip x y)"
    by (auto simp: F_where_def split: if_splits)
  have "map length (take n c) = map length (take n x)" "map length (take n x) = map length (take n y)"
    using sh by (simp_all only: take_map [symmetric])
  then show ?thesis by (simp add: F_where_def w take_map take_zip)
qed

lemma broadcast_mul_prefix:
  assumes "broadcast_mul a v = Inr pc"
  shows "broadcast_mul (take n a) (map (take n) v) = Inr (map (take n) pc)"
proof -
  from assms have sh: "list_all (\<lambda>vu. map length vu = map length a) v"
    and pc: "pc = map (\<lambda>vu. map2 (map2 (*)) a vu) v"
    by (auto simp: broadcast_mul_def split: if_splits)
  have "list_all (\<lambda>vu. map length vu = map length (take n a)) (map (take n) v)"
    using sh by (simp add: list_all_iff take_map [symmetric])
  moreover have "map (\<lambda>vu. map2 (map2 (*)) (take n a) vu) (map (take n) v) = map (take n) pc"
    by (simp add: pc take_map take_zip comp_def)
  ultimately show ?thesis by (simp add: broadcast_mul_def)
qed

lemma attend_example_prefix:
  assumes ok: "attend_example q k v m = Inr c"
    and q: "is_mat u l q" and u: "0 < u" and n: "n \<le> l"
  shows "attend_example (map (take n) q) k (map (take n) v) (take n m) = Inr (map (take n) c)"
proof -
  from ok obtain pre_a w a a' pc where
    1: "matmul_transa q k = Inr pre_a"
    and 2: "F_where m pre_a (map (map (\<lambda>_. NInf)) pre_a) = Inr w"
    and 3: "F_softmax w = Inr a"
    and 4: "F_where (map (map isnan) a) (map (map (\<lambda>_. 0)) a) a = Inr a'"
    and 5: "broadcast_mul a' v = Inr pc"
    and c: "c = map (map sum_list) pc"
    unfolding attend_example_def Let_def rbind_eq_Inr by auto
  note p1 = matmul_transa_prefix [OF q u n 1]
  have p2: "F_where (take n m) (take n pre_a) (map (map (\<lambda>_. NInf)) (take n pre_a)) = Inr (take n w)"
    using F_where_prefix [OF 2, of n] by (simp add: take_map)
  have p3: "F_softmax (take n w) = Inr (take n a)"
    using 3 unfolding F_softmax_def by (rule rmap_take)
  have p4: "F_where (map (map isnan) (take n a)) (map (map (\<lambda>_. 0)) (take n a)) (take n a) =
      Inr (take n a')"
    using F_where_prefix [OF 4, of n] by (simp add: take_map)
  note p5 = broadcast_mul_prefix [OF 5, of n]
  have p6: "map (map sum_list) (map (take n) pc) = map (take n) c"
    by (simp add: c take_map comp_def)
  show ?thesis
    unfolding attend_example_def Let_def p1 rbind_Inr p2 p3 p4 p5 p6 ..
qed

lemma attend_prefix:
  assumes ok: "attend q k v m = Inr c"
    and q: "is_tensor3 b u l q" and u: "0 < u" and n: "n \<le> l"
  shows "attend (map (map (take n)) q) k (map (map (take n)) v) (map (take n) m) =
           Inr (map (map (take n)) c)"
proof -
  from ok have len: "length q = length k" "length k = length v" "length v = length m"
    and r: "rmap (\<lambda>i. attend_example (q ! i) (k ! i) (v ! i) (m ! i)) [0..<length q] = Inr c"
    by (auto simp: attend_def split: if_splits)
  from r have lc: "length c = length q"
    and each: "\<And>i. i < length q \<Longrightarrow> attend_example (q ! i) (k ! i) (v ! i) (m ! i) = Inr (c ! i)"
    unfolding rmap_eq_Inr by auto
  have "attend_example (map (map (take n)) q ! i) (k ! i) (map (map (take n)) v ! i)
          (map (take n) m ! i) = Inr (map (map (take n)) c ! i)" if "i < length q" for i
  proof -
    have "is_mat u l (q ! i)" using q that by (simp add: is_tensor3_iff)
    from attend_example_prefix [OF each [OF that] this u n] show ?thesis
      using that len lc by simp
  qed
  then have "rmap (\<lambda>i. attend_example (map (map (take n)) q ! i) (k ! i) (map (map (take n)) v ! i)
          (map (take n) m ! i)) [0..<length q] = Inr (map (map (take n)) c)"
    unfolding rmap_eq_Inr using lc by simp
  then show ?thesis using len by (simp add: attend_def)
qed

lemma att_scale_of_prefix: "att_scale_of (map (take n) m) = map (take n) (att_scale_of m)"
  by (simp add: att_scale_of_def take_map comp_def)

lemma mul_att_scale_prefix:
  assumes "mul_att_scale c att = Inr r"
  shows "mul_att_scale (map (map (take n)) c) (map (take n) att) = Inr (map (map (take n)) r)"
proof -
  from assms have len: "length c = length att"
    and sh: "list_all (\<lambda>b. list_all (\<lambda>row. length row = length (att ! b)) (c ! b)) [0..<length c]"
    and r: "r = imap (\<lambda>b. map (\<lambda>row. map2 (*) row (att ! b))) c"
    by (auto simp: mul_att_scale_def split: if_splits)
  have "list_all (\<lambda>b. list_all (\<lambda>row. length row = length (map (take n) att ! b))
          (map (map (take n)) c ! b)) [0..<length (map (map (take n)) c)]"
    using sh len by (simp add: list_all_iff)
  moreover have "imap (\<lambda>b. map (\<lambda>row. map2 (*) row (map (take n) att ! b))) (map (map (take n)) c) =
      map (map (take n)) r"
    unfolding r imap_def using len
    by (intro nth_equalityI) (simp_all add: take_map take_zip comp_def)
  ultimately show ?thesis using len by (simp add: mul_att_scale_def)
qed


lemma is_tensor3_take:
  assumes "is_tensor3 b u l x" "n \<le> l"
  shows "is_tensor3 b u n (map (map (take n)) x)"
  using assms by (simp add: is_tensor3_iff is_mat_iff)

lemma ConvGLU_call_prefix:
  assumes ok: "ConvGLU_call False keep cv (pad_left x) = Inr h"
    and cv: "ConvGLU_inv u 3 True cv" and x: "is_tensor3 b u l x"
    and pos: "0 < u" "0 < n" and n: "n \<le> l"
  shows "ConvGLU_call False keep cv (pad_left (map (map (take n)) x)) = Inr (map (map (take n)) h)"
proof -
  let ?p = "pad_left x"
  note px = pad_left_shape [OF x]
  from ok have r: "rmap (ConvGLU_example cv) ?p = Inr h" by (simp add: ConvGLU_call_eval)
  then have lh: "length h = length ?p"
    and each: "\<And>i. i < length ?p \<Longrightarrow> ConvGLU_example cv (?p ! i) = Inr (h ! i)"
    unfolding rmap_eq_Inr by auto
  have "ConvGLU_example cv (map (map (take (n + 2))) ?p ! i) = Inr (map (map (take n)) h ! i)"
    if i: "i < length ?p" for i
  proof -
    have m: "is_mat u (l + 2) (?p ! i)" using px i by (simp add: is_tensor3_iff)
    have "ConvGLU_example cv (map (take (n + 2)) (?p ! i)) = Inr (map (take (n + 2 + 1 - 3)) (h ! i))"
      using cv pos(1) m _ _ each [OF i]
    proof (rule ConvGLU_example_prefix)
      show "3 \<le> n + 2" using pos(2) by simp
      show "n + 2 \<le> l + 2" using n by simp
    qed
    then show ?thesis using i lh by simp
  qed
  then have "rmap (ConvGLU_example cv) (map (map (take (n + 2))) ?p) = Inr (map (map (take n)) h)"
    unfolding rmap_eq_Inr using lh by simp
  then show ?thesis by (simp add: ConvGLU_call_eval pad_left_prefix)
qed

lemma decoder_layer_prefix:
  assumes ok: "decoder_layer False keep cv lin base_x z ze msk att x = Inr y"
    and cv: "ConvGLU_inv u 3 True cv" and lin: "Linear_inv u u lin"
    and x: "is_tensor3 b u l x" and bx: "is_tensor3 b u l base_x"
    and pos: "0 < u" "0 < n" and n: "n \<le> l"
  shows "decoder_layer False keep cv lin (map (map (take n)) base_x) z (map (map (take n)) ze)
           (map (take n) msk) (map (take n) att) (map (map (take n)) x) = Inr (map (map (take n)) y)"
proof -
  let ?t = "map (map (take n))"
  from ok obtain h x1 q c c' where
    1: "ConvGLU_call False keep cv (pad_left x) = Inr h"
    and 2: "F_add x h = Inr x1"
    and 3: "decoder_query lin base_x (mul_const x1 res_scale) = Inr q"
    and 4: "attend q z ze msk = Inr c"
    and 5: "mul_att_scale c att = Inr c'"
    and 6: "F_add (mul_const x1 res_scale) c' = Inr y"
    unfolding decoder_layer_def Let_def rbind_eq_Inr by auto
  let ?x2 = "mul_const x1 res_scale"
  have fits: "(3::nat) \<le> (l + 2) + 2 * (3 div 2 * (1 - of_bool True))"
    using pos(2) n by simp
  have e: "l + 2 + 2 * (3 div 2 * (1 - of_bool True)) + 1 - 3 = l" by simp
  from ConvGLU_call_shape [OF cv pos(1) pad_left_shape [OF x] fits, of False keep] 1
  have hs: "is_tensor3 b u l h" unfolding e by auto
  from F_add_shape [OF x hs] 2 have "is_tensor3 b u l x1" by auto
  then have x2: "is_tensor3 b u l ?x2" by (rule mul_const_shape)
  have l: "0 < l" using pos(2) n by simp
  have q: "q = ?x2" using 3 decoder_query_shape [OF lin pos(1) l bx x2] by simp
  note p1 = ConvGLU_call_prefix [OF 1 cv x pos n]
  note p2 = F_add_prefix [OF 2, of n]
  have p3: "decoder_query lin (?t base_x) (mul_const (?t x1) res_scale) = Inr (?t ?x2)"
    unfolding mul_const_prefix
    by (rule decoder_query_shape [OF lin pos is_tensor3_take [OF bx n] is_tensor3_take [OF x2 n]])
  have p4: "attend (?t ?x2) z (?t ze) (map (take n) msk) = Inr (?t c)"
    using 4 x2 pos(1) n unfolding q by (rule attend_prefix)
  note p5 = mul_att_scale_prefix [OF 5, of n]
  have p6: "F_add (?t ?x2) (?t c') = Inr (?t y)" using 6 by (rule F_add_prefix)
  show ?thesis
    unfolding decoder_layer_def Let_def p1 rbind_Inr p2 p3 p4 p5
    unfolding mul_const_prefix by (rule p6)
qed

lemma ConvGLUDecoder_loop_prefix:
  assumes "ConvGLUDecoder_loop False rng i ls base_x z ze msk att x = Inr y"
    and "list_all (\<lambda>(cv, lin). ConvGLU_inv u 3 True cv \<and> Linear_inv u u lin) ls"
    and "is_tensor3 b u l x" and bx: "is_tensor3 b u l base_x"
    and z: "is_tensor3 b u lx z" and ze: "is_tensor4 b u l lx ze"
    and m: "is_tensor3 b l lx msk" and att: "is_mat b l att"
    and pos: "0 < u" "0 < n" and n: "n \<le> l" and lx: "0 < lx"
  shows "ConvGLUDecoder_loop False rng i ls (map (map (take n)) base_x) z (map (map (take n)) ze)
           (map (take n) msk) (map (take n) att) (map (map (take n)) x) = Inr (map (map (take n)) y)"
  using assms(1-3)
proof (induction ls arbitrary: i x)
  case Nil
  then show ?case by simp
next
  case (Cons p ls)
  obtain cv lin where p: "p = (cv, lin)" by (cases p)
  from Cons.prems(2) have cv: "ConvGLU_inv u 3 True cv" and lin: "Linear_inv u u lin"
    and rest: "list_all (\<lambda>(cv, lin). ConvGLU_inv u 3 True cv \<and> Linear_inv u u lin) ls"
    by (simp_all add: p)
  from Cons.prems(1) obtain x' where
    step: "decoder_layer False (rng (DecoderLayer i)) cv lin base_x z ze msk att x = Inr x'"
    and loop: "ConvGLUDecoder_loop False rng (Suc i) ls base_x z ze msk att x' = Inr y"
    unfolding p ConvGLUDecoder_loop.simps rbind_eq_Inr by auto
  have l: "0 < l" using pos(2) n by simp
  from decoder_layer_shape [OF cv _ lin Cons.prems(3) bx z ze m att pos(1) l lx,
      of False "rng (DecoderLayer i)"] step
  have x': "is_tensor3 b u l x'" by auto
  note s = decoder_layer_prefix [OF step cv lin Cons.prems(3) bx pos n]
  note r = Cons.IH [OF loop rest x']
  show ?case unfolding p ConvGLUDecoder_loop.simps s rbind_Inr by (rule r)
qed

lemma list_all_zip_both:
  "list_all P xs \<Longrightarrow> list_all Q ys \<Longrightarrow> list_all (\<lambda>(x, y). P x \<and> Q y) (zip xs ys)"
  by (auto simp: list_all_iff dest: set_zip_leftD set_zip_rightD)

lemma ConvGLUDecoder_call_prefix:
  assumes ok: "ConvGLUDecoder_call False rng D x z ze msk = Inr y"
    and inv: "ConvGLUDecoder_inv layers u 5 D"
    and x: "is_tensor3 b u l x" and z: "is_tensor3 b u lx z" and ze: "is_tensor4 b u l lx ze"
    and m: "is_tensor3 b l lx msk"
    and pos: "0 < u" "0 < n" and n: "n \<le> l" and lx: "0 < lx"
  shows "ConvGLUDecoder_call False rng D (map (map (take n)) x) z (map (map (take n)) ze)
           (map (take n) msk) = Inr (map (map (take n)) y)"
proof -
  from inv have "list_all (ConvGLU_inv u 3 True) (dec_convs D)"
    and "list_all (Linear_inv u u) (dec_preatts D)"
    by (simp_all add: ConvGLUDecoder_inv_def)
  then have ls: "list_all (\<lambda>(cv, lin). ConvGLU_inv u 3 True cv \<and> Linear_inv u u lin)
      (zip (dec_convs D) (dec_preatts D))"
    by (rule list_all_zip_both)
  from ok have "ConvGLUDecoder_loop False rng 0 (zip (dec_convs D) (dec_preatts D)) x z ze msk
      (att_scale_of msk) x = Inr y"
    by (simp add: ConvGLUDecoder_call_def Let_def)
  from ConvGLUDecoder_loop_prefix [OF this ls x x z ze m att_scale_of_shape [OF m] pos n lx]
  show ?thesis
    by (simp add: ConvGLUDecoder_call_def Let_def att_scale_of_prefix)
qed

lemma ConvGLUDecoder_call_causal:
  assumes "ConvGLUDecoder_call False rng D x z ze msk = Inr y"
    and "ConvGLUDecoder_call False rng D x' z ze' msk' = Inr y'"
    and "ConvGLUDecoder_inv layers u 5 D"
    and "is_tensor3 b u l x" and "is_tensor3 b u l x'" and "is_tensor3 b u lx z"
    and "is_tensor4 b u l lx ze" and "is_tensor4 b u l lx ze'"
    and "is_tensor3 b l lx msk" and "is_tensor3 b l lx msk'"
    and "0 < u" and "0 < n" and "n \<le> l" and "0 < lx"
    and "map (map (take n)) x = map (map (take n)) x'"
    and "map (map (take n)) ze = map (map (take n)) ze'"
    and "map (take n) msk = map (take n) msk'"
  shows "map (map (take n)) y = map (map (take n)) y'"
proof -
  have "Inr (map (map (take n)) y) =
      ConvGLUDecoder_call False rng D (map (map (take n)) x) z (map (map (take n)) ze) (map (take n) msk)"
    using assms(1,3,4,6,7,9,11-14) by (rule ConvGLUDecoder_call_prefix [symmetric])
  also have "\<dots> = Inr (map (map (take n)) y')"
    unfolding assms(15,16,17) using assms(2,3,5,6,8,10,11-14) by (rule ConvGLUDecoder_call_prefix)
  finally show ?thesis by simp
qed

section \<open>The loss of the training path\<close>

lemma product_append_left: "List.product (xs @ zs) ys = List.product xs ys @ List.product zs ys"
  by (induction xs) simp_all

lemma flat_index_product:
  "map (\<lambda>(b, t). b * l + t) (List.product [0..<n] [0..<l]) = [0..<n * l]"
proof (induction n)
  case 0
  show ?case by simp
next
  case (Suc n)
  have "(\<lambda>t. n * l + t) = (\<lambda>t. t + n * l)" by (rule ext) simp
  then have row: "map (\<lambda>t. n * l + t) [0..<l] = [n * l..<l + n * l]"
    using map_add_upt [of "n * l" l] by simp
  have "map (\<lambda>(b, t). b * l + t) (List.product [0..<Suc n] [0..<l]) =
        map (\<lambda>(b, t). b * l + t) (List.product [0..<n] [0..<l]) @ map (\<lambda>t. n * l + t) [0..<l]"
    by (simp add: product_append_left comp_def)
  also have "\<dots> = [0..<n * l] @ [n * l..<l + n * l]"
    unfolding Suc row ..
  also have "\<dots> = [0..<n * l + l]"
    using upt_add_eq_append [of 0 "n * l" l] by (simp add: add.commute)
  finally show ?case by (simp add: add.commute)
qed

lemma in_product_upt: "(b, t) \<in> set (List.product [0..<n] [0..<l]) \<longleftrightarrow> b < n \<and> t < l"
  by simp

lemma list_as_product:
  assumes "length xs = n * l"
  shows "xs = map (\<lambda>(b, t). xs ! (b * l + t)) (List.product [0..<n] [0..<l])"
proof -
  have "xs = map ((!) xs) [0..<n * l]" using assms map_nth [of xs] by simp
  also have "\<dots> = map ((!) xs) (map (\<lambda>(b, t). b * l + t) (List.product [0..<n] [0..<l]))"
    by (simp only: flat_index_product)
  also have "\<dots> = map (\<lambda>(b, t). xs ! (b * l + t)) (List.product [0..<n] [0..<l])"
    by (simp add: comp_def case_prod_unfold)
  finally show ?thesis .
qed

lemma concat_as_product:
  assumes "is_mat n l m"
  shows "concat m = map (\<lambda>(b, t). m ! b ! t) (List.product [0..<n] [0..<l])"
proof -
  have rows: "\<And>r. r \<in> set m \<Longrightarrow> length r = l" using assms by (rule is_mat_rows)
  have len: "length m = n" using assms by (rule is_mat_length)
  have "length (concat m) = n * l" using length_concat_uniform [OF rows] len by simp
  from list_as_product [OF this]
  have "concat m = map (\<lambda>(b, t). concat m ! (b * l + t)) (List.product [0..<n] [0..<l])" .
  also have "\<dots> = map (\<lambda>(b, t). m ! b ! t) (List.product [0..<n] [0..<l])"
  proof (rule map_cong [OF refl])
    fix p assume "p \<in> set (List.product [0..<n] [0..<l])"
    then obtain b t where p: "p = (b, t)" "b < n" "t < l" by auto
    show "(case p of (b, t) \<Rightarrow> concat m ! (b * l + t)) = (case p of (b, t) \<Rightarrow> m ! b ! t)"
      using nth_concat_uniform [OF rows, of m b t] p len by simp
  qed
  finally show ?thesis .
qed

lemma softmax_cross_entropy_mean:
  assumes ok: "softmax_cross_entropy cp (concat y_out) = Inr loss"
    and y: "is_mat n l y_out"
  shows "loss =
           (\<Sum>(b, t)\<leftarrow>filter (\<lambda>(b, t). y_out ! b ! t \<noteq> - 1) (List.product [0..<n] [0..<l]).
               cross_entropy_at (reshape2 n l cp ! b ! t) (y_out ! b ! t))
           / Fin (real (max (length (filter (\<lambda>(b, t). y_out ! b ! t \<noteq> - 1)
                                      (List.product [0..<n] [0..<l]))) 1))"
proof -
  let ?P = "List.product [0..<n] [0..<l]"
  let ?keep = "\<lambda>(b, t). y_out ! b ! t \<noteq> - 1"
  let ?t = "concat y_out"
  let ?f = "\<lambda>(row, label). if label = - 1 then 0 else cross_entropy_at row label"
  from ok have len: "length cp = length ?t"
    and loss: "loss = sum_list (map ?f (zip cp ?t))
                 / Fin (real (max (length (filter (\<lambda>label. label \<noteq> - 1) ?t)) 1))"
    by (auto simp: softmax_cross_entropy_def Let_def split: if_splits)
  have t: "?t = map (\<lambda>(b, t). y_out ! b ! t) ?P" using y by (rule concat_as_product)
  have lt: "length ?t = n * l" by (subst t) simp
  have cp: "cp = map (\<lambda>(b, t). cp ! (b * l + t)) ?P"
    using list_as_product [of cp n l] len lt by simp
  have "zip cp ?t = zip (map (\<lambda>(b, t). cp ! (b * l + t)) ?P) (map (\<lambda>(b, t). y_out ! b ! t) ?P)"
    using cp t by simp
  also have "\<dots> = map (\<lambda>p. (case p of (b, t) \<Rightarrow> cp ! (b * l + t), case p of (b, t) \<Rightarrow> y_out ! b ! t)) ?P"
    by (simp add: zip_map_map zip_same_conv_map comp_def)
  finally have z: "zip cp ?t =
      map (\<lambda>p. (case p of (b, t) \<Rightarrow> cp ! (b * l + t), case p of (b, t) \<Rightarrow> y_out ! b ! t)) ?P" .
  have "sum_list (map ?f (zip cp ?t)) =
        sum_list (map (\<lambda>p. if ?keep p then (case p of (b, t) \<Rightarrow>
             cross_entropy_at (reshape2 n l cp ! b ! t) (y_out ! b ! t)) else 0) ?P)"
    unfolding z map_map
  proof (rule arg_cong [where f = sum_list], rule map_cong [OF refl])
    fix p assume "p \<in> set ?P"
    then obtain b t where p: "p = (b, t)" "b < n" "t < l" by auto
    have "reshape2 n l cp ! b ! t = cp ! (b * l + t)" using p by (simp add: reshape2_def)
    then show "(?f \<circ> (\<lambda>p. (case p of (b, t) \<Rightarrow> cp ! (b * l + t), case p of (b, t) \<Rightarrow> y_out ! b ! t))) p =
        (if ?keep p then (case p of (b, t) \<Rightarrow>
             cross_entropy_at (reshape2 n l cp ! b ! t) (y_out ! b ! t)) else 0)"
      by (simp add: p)
  qed
  also have "\<dots> = (\<Sum>(b, t)\<leftarrow>filter ?keep ?P.
               cross_entropy_at (reshape2 n l cp ! b ! t) (y_out ! b ! t))"
    by (simp only: sum_list_map_filter')
  finally have s: "sum_list (map ?f (zip cp ?t)) =
      (\<Sum>(b, t)\<leftarrow>filter ?keep ?P. cross_entropy_at (reshape2 n l cp ! b ! t) (y_out ! b ! t))" .
  have "filter (\<lambda>label. label \<noteq> - 1) ?t = map (\<lambda>(b, t). y_out ! b ! t) (filter ?keep ?P)"
    by (subst t) (simp add: filter_map comp_def case_prod_unfold)
  then have c: "length (filter (\<lambda>label. label \<noteq> - 1) ?t) = length (filter ?keep ?P)"
    by simp
  show ?thesis unfolding loss s c ..
qed


lemma product_of_mat:
  assumes "is_mat n l m"
  shows "List.product [0..<length m] [0..<ncols m] = List.product [0..<n] [0..<l]"
proof (cases "n = 0")
  case True
  then show ?thesis using assms by (simp add: is_mat_def)
next
  case False
  then have "ncols m = l" using ncols_is_mat [OF assms] by simp
  then show ?thesis using assms by (simp add: is_mat_def)
qed

lemma fl_zero_div_one: "(0::fl) / Fin 1 = 0"
  by (simp add: divide_fl_def zero_fl_def)

lemma Seq2seq_call_loss:
  assumes ok: "Seq2seq_call train rng M x_block y_in_block y_out_block False = Inr r"
    and y: "is_mat (length y_in_block) (ncols y_in_block) y_out_block"
  shows "\<exists>concat_pred loss.
           Seq2seq_forward train rng M x_block y_in_block = Inr concat_pred \<and>
           r = Loss loss [(''loss'', loss), (''perp'', fl_exp loss)] \<and>
           ((\<exists>b<length y_in_block. \<exists>t<ncols y_in_block. y_out_block ! b ! t \<noteq> - 1) \<longrightarrow>
              loss = mean_cross_entropy_spec
                       (reshape2 (length y_in_block) (ncols y_in_block) concat_pred) y_out_block) \<and>
           ((\<forall>b<length y_in_block. \<forall>t<ncols y_in_block. y_out_block ! b ! t = - 1) \<longrightarrow> loss = 0) \<and>
           (list_all (\<lambda>r. length r = n_target_vocab M) concat_pred \<longrightarrow>
              Seq2seq_call train rng M x_block y_in_block y_out_block True =
                Inr (Prediction (reshape2 (length y_in_block) (ncols y_in_block) concat_pred)))"
proof -
  let ?n = "length y_in_block" and ?l = "ncols y_in_block"
  let ?P = "List.product [0..<?n] [0..<?l]"
  let ?keep = "\<lambda>(b, t). y_out_block ! b ! t \<noteq> - 1"
  from ok obtain cp loss where cp: "Seq2seq_forward train rng M x_block y_in_block = Inr cp"
    and sce: "softmax_cross_entropy cp (concat y_out_block) = Inr loss"
    and r: "r = Loss loss [(''loss'', loss), (''perp'', fl_exp loss)]"
    by (auto simp: Seq2seq_call_def Let_def rbind_eq_Inr split: if_splits)
  let ?pred = "reshape2 ?n ?l cp"
  note loss = softmax_cross_entropy_mean [OF sce y]
  have spec: "mean_cross_entropy_spec ?pred y_out_block =
      (\<Sum>(b, t)\<leftarrow>filter ?keep ?P. cross_entropy_at (?pred ! b ! t) (y_out_block ! b ! t))
        / Fin (real (length (filter ?keep ?P)))"
    unfolding mean_cross_entropy_spec_def Let_def product_of_mat [OF y] ..
  have some: "loss = mean_cross_entropy_spec ?pred y_out_block"
    if "\<exists>b<?n. \<exists>t<?l. y_out_block ! b ! t \<noteq> - 1"
  proof -
    from that obtain b t where "b < ?n" "t < ?l" "y_out_block ! b ! t \<noteq> - 1" by blast
    then have "(b, t) \<in> set (filter ?keep ?P)" by simp
    then have "0 < length (filter ?keep ?P)" by (rule length_pos_if_in_set)
    then have "max (length (filter ?keep ?P)) 1 = length (filter ?keep ?P)" by linarith
    then show ?thesis unfolding spec loss by simp
  qed
  have none: "loss = 0" if "\<forall>b<?n. \<forall>t<?l. y_out_block ! b ! t = - 1"
  proof -
    have "filter ?keep ?P = []" using that by (auto simp: filter_empty_conv)
    then show ?thesis unfolding loss by (simp add: fl_zero_div_one)
  qed
  have pred: "Seq2seq_call train rng M x_block y_in_block y_out_block True = Inr (Prediction ?pred)"
    if "list_all (\<lambda>r. length r = n_target_vocab M) cp"
    using that cp by (simp add: Seq2seq_call_def Let_def)
  from cp r some none pred show ?thesis by blast
qed

text \<open>
  C9. Whenever the forward call without \<^verbatim>\<open>get_prediction\<close> returns, on targets of the
  shape of the target input, it returns the loss and has reported the loss and, as
  the perplexity, the exponential of that loss. The loss is the mean, over the
  positions whose target is not -1, of the cross-entropy of the logits of the
  position with its target (zero when every target is -1); the logits are those
  that the same call with \<^verbatim>\<open>get_prediction\<close> returns.
\<close>

theorem training_loss_is_mean_cross_entropy:
  assumes "Seq2seq_call train rng M x_block y_in_block y_out_block False = Inr r"
    and "is_mat (length y_in_block) (ncols y_in_block) y_out_block"
  shows "\<exists>concat_pred loss.
           Seq2seq_forward train rng M x_block y_in_block = Inr concat_pred \<and>
           r = Loss loss [(''loss'', loss), (''perp'', fl_exp loss)] \<and>
           ((\<exists>b<length y_in_block. \<exists>t<ncols y_in_block. y_out_block ! b ! t \<noteq> - 1) \<longrightarrow>
              loss = mean_cross_entropy_spec
                       (reshape2 (length y_in_block) (ncols y_in_block) concat_pred) y_out_block) \<and>
           ((\<forall>b<length y_in_block. \<forall>t<ncols y_in_block. y_out_block ! b ! t = - 1) \<longrightarrow> loss = 0) \<and>
           (list_all (\<lambda>r. length r = n_target_vocab M) concat_pred \<longrightarrow>
              Seq2seq_call train rng M x_block y_in_block y_out_block True =
                Inr (Prediction (reshape2 (length y_in_block) (ncols y_in_block) concat_pred)))"
  using assms by (rule Seq2seq_call_loss)

theorem training_loss_is_mean_cross_entropy_witness:
  "Seq2seq_call False no_drop ex_model_flat [[1]] [[0, 1]] [[1, - 1]] False =
     Inr (Loss (Fin (ln 2)) [(''loss'', Fin (ln 2)), (''perp'', Fin 2)]) \<and>
   is_mat (length [[0, 1 :: int]]) (ncols [[0, 1 :: int]]) [[1, - 1 :: int]] \<and>
   Seq2seq_forward False no_drop ex_model_flat [[1]] [[0, 1]] = Inr [[Fin 0, Fin 0], [Fin 0, Fin 0]] \<and>
   Fin (ln 2) = mean_cross_entropy_spec
                  (reshape2 (length [[0, 1 :: int]]) (ncols [[0, 1 :: int]])
                     [[Fin 0, Fin 0], [Fin 0, Fin 0]]) [[1, - 1]] \<and>
   fl_exp (Fin (ln 2)) = Fin 2"
proof -
  have call: "Seq2seq_call False no_drop ex_model_flat [[1]] [[0, 1]] [[1, - 1]] False =
      Inr (Loss (Fin (ln 2)) [(''loss'', Fin (ln 2)), (''perp'', Fin 2)])"
    by (simp add: fl_arith array_defs chainer_defs net_defs Let_def eval_more no_drop_def
        ex_model_flat_def ex_embed_flat_def ex_embed_position_def softmax_cross_entropy_def
        log_softmax_row_def cross_entropy_at_def)
  have y: "is_mat (length [[0, 1 :: int]]) (ncols [[0, 1 :: int]]) [[1, - 1 :: int]]"
    by (simp add: is_mat_def ncols_def)
  have fw: "Seq2seq_forward False no_drop ex_model_flat [[1]] [[0, 1]] =
      Inr [[Fin 0, Fin 0], [Fin 0, Fin 0]]"
    by (simp add: fl_arith array_defs chainer_defs net_defs Let_def eval_more no_drop_def
        ex_model_flat_def ex_embed_flat_def ex_embed_position_def)
  have some: "\<exists>b<length [[0, 1 :: int]]. \<exists>t<ncols [[0, 1 :: int]]. [[1, - 1 :: int]] ! b ! t \<noteq> - 1"
    by (intro exI [of _ 0] conjI) (simp_all add: ncols_def)
  from training_loss_is_mean_cross_entropy [OF call y] fw some
  have spec: "Fin (ln 2) = mean_cross_entropy_spec
                  (reshape2 (length [[0, 1 :: int]]) (ncols [[0, 1 :: int]])
                     [[Fin 0, Fin 0], [Fin 0, Fin 0]]) [[1, - 1]]"
    by auto
  have "fl_exp (Fin (ln 2)) = Fin 2" by simp
  with call y fw spec show ?thesis by blast
qed

end
